theory Spec2Isabelle
  imports Complex_Main
begin

section \<open>JavaScript strings\<close>

text \<open>
  A JavaScript string is a sequence of UTF-16 code units and \<^verbatim>\<open>.length\<close> counts code
  units, so a string is a list of code units (natural numbers). String literals of the
  script are written with \<open>lit\<close>.
\<close>

type_synonym jsstring = "nat list"

definition lit :: "string \<Rightarrow> jsstring" where
  "lit s = map of_char s"

text \<open>
  \<^verbatim>\<open>String.prototype.trim\<close> and the regular expression class \<^verbatim>\<open>\s\<close> use the same set of
  code units (ECMAScript WhiteSpace and LineTerminator): TAB, LF, VT, FF, CR, SP, NBSP,
  U+1680, U+2000 to U+200A, U+2028, U+2029, U+202F, U+205F, U+3000 and U+FEFF.
\<close>

definition is_space :: "nat \<Rightarrow> bool" where
  "is_space c =
     (c = 9 \<or> c = 10 \<or> c = 11 \<or> c = 12 \<or> c = 13 \<or> c = 32 \<or> c = 160 \<or> c = 5760 \<or>
      (8192 \<le> c \<and> c \<le> 8202) \<or> c = 8232 \<or> c = 8233 \<or> c = 8239 \<or> c = 8287 \<or>
      c = 12288 \<or> c = 65279)"

definition trim :: "jsstring \<Rightarrow> jsstring" where
  "trim s = rev (dropWhile is_space (rev (dropWhile is_space s)))"

subsection \<open>The regular expression of the email rule\<close>

text \<open>
  \<^verbatim>\<open>/^[^\s@]+@[^\s@]+\.[^\s@]+$/\<close> is a sequence of atoms, each a character class taken
  once or one or more times, anchored at both ends. \<^verbatim>\<open>test\<close> asks whether some way of
  matching exists.
\<close>

datatype cclass = Exactly nat | NotSpaceAt

fun in_class :: "cclass \<Rightarrow> nat \<Rightarrow> bool" where
  "in_class (Exactly k) c = (c = k)"
| "in_class NotSpaceAt c = (\<not> is_space c \<and> c \<noteq> 64)"

datatype atom = One cclass | Many1 cclass

fun re_test :: "atom list \<Rightarrow> jsstring \<Rightarrow> bool" where
  "re_test [] s = (s = [])"
| "re_test (One k # r) [] = False"
| "re_test (One k # r) (c # s) = (in_class k c \<and> re_test r s)"
| "re_test (Many1 k # r) [] = False"
| "re_test (Many1 k # r) (c # s) =
     (in_class k c \<and> (re_test (Many1 k # r) s \<or> re_test r s))"

definition email_re :: "atom list" where
  "email_re =
     [Many1 NotSpaceAt, One (Exactly 64), Many1 NotSpaceAt, One (Exactly 46), Many1 NotSpaceAt]"


section \<open>The document\<close>

text \<open>
  Elements live in a store indexed by node identity; \<open>doc_order\<close> lists the nodes attached
  to the document in document order. Every element records the chain of its ancestors
  (nearest first), which is what scoped queries, \<^verbatim>\<open>closest\<close> and \<^verbatim>\<open>contains\<close> read.
  The reflected properties \<^verbatim>\<open>id\<close>, \<^verbatim>\<open>hidden\<close>, \<^verbatim>\<open>disabled\<close> and \<^verbatim>\<open>open\<close> are the attributes
  of the same names; \<open>el_value\<close> is the current value of a form control and \<open>display\<close> is
  \<^verbatim>\<open>style.display\<close>.
\<close>

type_synonym node = nat

record element =
  tag :: string
  attrs :: "string \<rightharpoonup> jsstring"
  classes :: "string set"
  textContent :: jsstring
  el_value :: jsstring
  display :: jsstring
  ancestors :: "node list"

datatype timer_cb = ResolveSend

text \<open>
  Event listeners are recorded as data: the target, the event type, and which closure of
  the script was registered together with the element references it captured.
\<close>

datatype field = Name | Email | Message

datatype target = Document | Window | Element node

datatype handler =
    SmoothScrollClick
  | NavIntersection
  | NavResize
  | MobileToggleClick
  | MobileLinkClick
  | MobileOutsideClick
  | MobileEscapeKey
  | FilterClick node
  | FilterKeydown
  | AccordionToggle node
  | SummaryKeydown node
  | SyncAria node node
  | FieldBlur field
  | FieldInput field node
  | FormSubmit
  | CopyClick
  | CopyKeydown

record page =
  nodes :: "node \<Rightarrow> element"
  doc_order :: "node list"
  activeElement :: "node option"
  timers :: "(nat \<times> timer_cb) list"
  listeners :: "(target \<times> string \<times> handler) list"
  fresh :: node

subsection \<open>Selectors\<close>

datatype selector =
    ById jsstring
  | ByClass string
  | ByTag string
  | HasAttr string
  | AttrEq string jsstring
  | AttrPrefix string jsstring
  | Both selector selector
  | Either selector selector

fun matches :: "element \<Rightarrow> selector \<Rightarrow> bool" where
  "matches e (ById i) = (attrs e ''id'' = Some i)"
| "matches e (ByClass c) = (c \<in> classes e)"
| "matches e (ByTag t) = (tag e = t)"
| "matches e (HasAttr k) = (attrs e k \<noteq> None)"
| "matches e (AttrEq k v) = (attrs e k = Some v)"
| "matches e (AttrPrefix k p) =
     (case attrs e k of None \<Rightarrow> False | Some v \<Rightarrow> p \<noteq> [] \<and> take (length p) v = p)"
| "matches e (Both a b) = (matches e a \<and> matches e b)"
| "matches e (Either a b) = (matches e a \<or> matches e b)"

text \<open>A query rooted at an element sees that element's descendants only.\<close>

definition in_scope :: "page \<Rightarrow> node option \<Rightarrow> node \<Rightarrow> bool" where
  "in_scope d rt m =
     (case rt of None \<Rightarrow> True | Some r \<Rightarrow> r \<in> set (ancestors (nodes d m)))"

definition qs :: "selector \<Rightarrow> node option \<Rightarrow> page \<Rightarrow> node option" where
  "qs s rt d = List.find (\<lambda>m. in_scope d rt m \<and> matches (nodes d m) s) (doc_order d)"

definition qsa :: "selector \<Rightarrow> node option \<Rightarrow> page \<Rightarrow> node list" where
  "qsa s rt d = filter (\<lambda>m. in_scope d rt m \<and> matches (nodes d m) s) (doc_order d)"

subsection \<open>Operations on elements\<close>

definition getAttribute :: "page \<Rightarrow> node \<Rightarrow> string \<Rightarrow> jsstring option" where
  "getAttribute d n k = attrs (nodes d n) k"

definition setAttribute :: "node \<Rightarrow> string \<Rightarrow> jsstring \<Rightarrow> page \<Rightarrow> page" where
  "setAttribute n k v d =
     d\<lparr>nodes := (nodes d)(n := (nodes d n)\<lparr>attrs := (attrs (nodes d n))(k \<mapsto> v)\<rparr>)\<rparr>"

definition removeAttribute :: "node \<Rightarrow> string \<Rightarrow> page \<Rightarrow> page" where
  "removeAttribute n k d =
     d\<lparr>nodes := (nodes d)(n := (nodes d n)\<lparr>attrs := (attrs (nodes d n))(k := None)\<rparr>)\<rparr>"

definition classList_add :: "node \<Rightarrow> string \<Rightarrow> page \<Rightarrow> page" where
  "classList_add n c d =
     d\<lparr>nodes := (nodes d)(n := (nodes d n)\<lparr>classes := insert c (classes (nodes d n))\<rparr>)\<rparr>"

definition classList_remove :: "node \<Rightarrow> string \<Rightarrow> page \<Rightarrow> page" where
  "classList_remove n c d =
     d\<lparr>nodes := (nodes d)(n := (nodes d n)\<lparr>classes := classes (nodes d n) - {c}\<rparr>)\<rparr>"

definition classList_toggle :: "node \<Rightarrow> string \<Rightarrow> bool \<Rightarrow> page \<Rightarrow> page" where
  "classList_toggle n c force d = (if force then classList_add n c d else classList_remove n c d)"

text \<open>
  Assigning \<^verbatim>\<open>textContent\<close> replaces the children of the element by one text node: the
  element's descendants leave the document.
\<close>

definition set_textContent :: "node \<Rightarrow> jsstring \<Rightarrow> page \<Rightarrow> page" where
  "set_textContent n s d =
     d\<lparr>nodes := (nodes d)(n := (nodes d n)\<lparr>textContent := s\<rparr>),
       doc_order := filter (\<lambda>m. n \<notin> set (ancestors (nodes d m))) (doc_order d)\<rparr>"

definition set_hidden :: "node \<Rightarrow> bool \<Rightarrow> page \<Rightarrow> page" where
  "set_hidden n b d = (if b then setAttribute n ''hidden'' [] d else removeAttribute n ''hidden'' d)"

definition set_disabled :: "node \<Rightarrow> bool \<Rightarrow> page \<Rightarrow> page" where
  "set_disabled n b d =
     (if b then setAttribute n ''disabled'' [] d else removeAttribute n ''disabled'' d)"

text \<open>
  An element is not shown when it, or an element around it, has the attribute \<^verbatim>\<open>hidden\<close>
  or the inline style \<^verbatim>\<open>display: none\<close>. (Style sheets are not part of the scripts and are
  not modelled.)
\<close>

definition not_displayed :: "page \<Rightarrow> node \<Rightarrow> bool" where
  "not_displayed d a =
     (getAttribute d a ''hidden'' \<noteq> None \<or> display (nodes d a) = lit ''none'')"

definition concealed :: "page \<Rightarrow> node \<Rightarrow> bool" where
  "concealed d k = list_ex (not_displayed d) (k # ancestors (nodes d k))"

text \<open>
  \<^verbatim>\<open>focus()\<close> does what browsers do: it makes the element the active element when the
  element is focusable and does nothing otherwise. Of the focusable elements the model
  has those the scripts meet: a form control (\<^verbatim>\<open>input\<close>, \<^verbatim>\<open>textarea\<close>, \<^verbatim>\<open>select\<close>, \<^verbatim>\<open>button\<close>)
  that is not disabled, a link with \<^verbatim>\<open>href\<close>, and any other element whose \<^verbatim>\<open>tabindex\<close>
  attribute parses as an integer (optional white space, an optional sign, then a digit).
  An \<^verbatim>\<open>input\<close> with \<^verbatim>\<open>type="hidden"\<close> (the value in lower case) is never focusable. The
  element must be in the document and shown.
\<close>

definition parses_as_integer :: "jsstring \<Rightarrow> bool" where
  "parses_as_integer v =
     (let s = dropWhile (\<lambda>c. c = 9 \<or> c = 10 \<or> c = 12 \<or> c = 13 \<or> c = 32) v;
          digits = (case s of [] \<Rightarrow> [] | c # r \<Rightarrow> if c = 45 \<or> c = 43 then r else s)
      in case digits of [] \<Rightarrow> False | c # r \<Rightarrow> 48 \<le> c \<and> c \<le> 57)"

definition form_control :: "page \<Rightarrow> node \<Rightarrow> bool" where
  "form_control d n = (tag (nodes d n) \<in> {''input'', ''textarea'', ''select'', ''button''})"

definition focus_target :: "page \<Rightarrow> node \<Rightarrow> bool" where
  "focus_target d n =
     (\<not> (tag (nodes d n) = ''input'' \<and> getAttribute d n ''type'' = Some (lit ''hidden''))
      \<and> (if form_control d n then getAttribute d n ''disabled'' = None
         else (tag (nodes d n) = ''a'' \<and> getAttribute d n ''href'' \<noteq> None)
            \<or> (case getAttribute d n ''tabindex'' of
                  None \<Rightarrow> False
                | Some v \<Rightarrow> parses_as_integer v)))"

definition focusable :: "page \<Rightarrow> node \<Rightarrow> bool" where
  "focusable d n = (n \<in> set (doc_order d) \<and> \<not> concealed d n \<and> focus_target d n)"

definition focus :: "node \<Rightarrow> page \<Rightarrow> page" where
  "focus n d = (if focusable d n then d\<lparr>activeElement := Some n\<rparr> else d)"

definition setTimeout :: "timer_cb \<Rightarrow> nat \<Rightarrow> page \<Rightarrow> page" where
  "setTimeout cb ms d = d\<lparr>timers := timers d @ [(ms, cb)]\<rparr>"

definition addEventListener :: "target \<Rightarrow> string \<Rightarrow> handler \<Rightarrow> page \<Rightarrow> page" where
  "addEventListener t ev h d = d\<lparr>listeners := listeners d @ [(t, ev, h)]\<rparr>"

definition set_display :: "node \<Rightarrow> jsstring \<Rightarrow> page \<Rightarrow> page" where
  "set_display n v d = d\<lparr>nodes := (nodes d)(n := (nodes d n)\<lparr>display := v\<rparr>)\<rparr>"

definition element_id :: "page \<Rightarrow> node \<Rightarrow> jsstring" where
  "element_id d n = (case attrs (nodes d n) ''id'' of None \<Rightarrow> [] | Some v \<Rightarrow> v)"

definition String_bool :: "bool \<Rightarrow> jsstring" where
  "String_bool b = (if b then lit ''true'' else lit ''false'')"

definition blank :: "string \<Rightarrow> element" where
  "blank t =
     \<lparr>tag = t, attrs = Map.empty, classes = {}, textContent = [], el_value = [],
      display = [], ancestors = []\<rparr>"

text \<open>\<^verbatim>\<open>document.createElement\<close>: a new element, not yet attached to the document.\<close>

definition createElement :: "string \<Rightarrow> page \<Rightarrow> node \<times> page" where
  "createElement t d =
     (fresh d, d\<lparr>nodes := (nodes d)(fresh d := blank t), fresh := Suc (fresh d)\<rparr>)"

text \<open>
  \<^verbatim>\<open>target.after(n)\<close> for a new element \<open>n\<close> without children: \<open>n\<close> becomes the next sibling
  of \<open>target\<close>, so it follows \<open>target\<close> and the descendants of \<open>target\<close> in document order
  and has the ancestors of \<open>target\<close>. Nothing happens when \<open>target\<close> has no parent.
\<close>

definition insert_after :: "node \<Rightarrow> node \<Rightarrow> page \<Rightarrow> page" where
  "insert_after target n d =
     (if ancestors (nodes d target) = [] then d
      else
        (let d1 = d\<lparr>nodes := (nodes d)(n := (nodes d n)\<lparr>ancestors := ancestors (nodes d target)\<rparr>)\<rparr>
         in if target \<notin> set (doc_order d) then d1
            else
              (let pre = takeWhile (\<lambda>m. m \<noteq> target) (doc_order d);
                   rest = drop 1 (dropWhile (\<lambda>m. m \<noteq> target) (doc_order d));
                   sub = takeWhile (\<lambda>m. target \<in> set (ancestors (nodes d m))) rest;
                   post = dropWhile (\<lambda>m. target \<in> set (ancestors (nodes d m))) rest
               in d1\<lparr>doc_order := pre @ [target] @ sub @ [n] @ post\<rparr>)))"


section \<open>Contact form\<close>

subsection \<open>Validation rules\<close>

record config =
  el :: "page \<Rightarrow> node option"
  errorEl :: "page \<Rightarrow> node option"
  groupEl :: "page \<Rightarrow> node option"
  validate :: "jsstring \<Rightarrow> jsstring option"

definition validate_name :: "jsstring \<Rightarrow> jsstring option" where
  "validate_name v =
     (if trim v = [] then Some (lit ''Name is required.'')
      else if length (trim v) < 2 then Some (lit ''Name must be at least 2 characters.'')
      else None)"

definition validate_email :: "jsstring \<Rightarrow> jsstring option" where
  "validate_email v =
     (if trim v = [] then Some (lit ''Email address is required.'')
      else if \<not> re_test email_re (trim v) then Some (lit ''Please enter a valid email address.'')
      else None)"

definition validate_message :: "jsstring \<Rightarrow> jsstring option" where
  "validate_message v =
     (if trim v = [] then Some (lit ''A message is required.'')
      else if length (trim v) < 10 then Some (lit ''Message must be at least 10 characters.'')
      else None)"

definition name_config :: config where
  "name_config =
     \<lparr>el = qs (ById (lit ''field-name'')) None,
      errorEl = qs (ById (lit ''error-name'')) None,
      groupEl = qs (ById (lit ''group-name'')) None,
      validate = validate_name\<rparr>"

definition email_config :: config where
  "email_config =
     \<lparr>el = qs (ById (lit ''field-email'')) None,
      errorEl = qs (ById (lit ''error-email'')) None,
      groupEl = qs (ById (lit ''group-email'')) None,
      validate = validate_email\<rparr>"

definition message_config :: config where
  "message_config =
     \<lparr>el = qs (ById (lit ''field-message'')) None,
      errorEl = qs (ById (lit ''error-message'')) None,
      groupEl = qs (ById (lit ''group-message'')) None,
      validate = validate_message\<rparr>"

fun validators :: "field \<Rightarrow> config" where
  "validators Name = name_config"
| "validators Email = email_config"
| "validators Message = message_config"

text \<open>\<^verbatim>\<open>Object.values(validators)\<close> lists the rules in insertion order.\<close>

definition validators_values :: "config list" where
  "validators_values = map validators [Name, Email, Message]"

subsection \<open>Showing and clearing a field's error\<close>

definition showError :: "config \<Rightarrow> jsstring \<Rightarrow> page \<Rightarrow> page" where
  "showError c message d =
     (case (el c d, errorEl c d, groupEl c d) of
        (Some input, Some e, Some g) \<Rightarrow>
          classList_add g ''form-group--error''
            (set_textContent e message
              (setAttribute input ''aria-invalid'' (lit ''true'') d))
      | _ \<Rightarrow> d)"

definition clearError :: "config \<Rightarrow> page \<Rightarrow> page" where
  "clearError c d =
     (case (el c d, errorEl c d, groupEl c d) of
        (Some input, Some e, Some g) \<Rightarrow>
          classList_remove g ''form-group--error''
            (set_textContent e []
              (removeAttribute input ''aria-invalid'' d))
      | _ \<Rightarrow> d)"

text \<open>
  \<^verbatim>\<open>if (error)\<close> tests a value that is a string or null: null and the empty string are
  falsy.
\<close>

definition truthy :: "jsstring option \<Rightarrow> bool" where
  "truthy e = (case e of None \<Rightarrow> False | Some s \<Rightarrow> s \<noteq> [])"

definition validateField :: "config \<Rightarrow> page \<Rightarrow> jsstring option \<times> page" where
  "validateField c d =
     (case el c d of
        None \<Rightarrow> (None, d)
      | Some input \<Rightarrow>
          (let error = validate c (el_value (nodes d input))
           in (error, if truthy error then showError c (the error) d else clearError c d)))"

fun map_effect :: "('a \<Rightarrow> 's \<Rightarrow> 'b \<times> 's) \<Rightarrow> 'a list \<Rightarrow> 's \<Rightarrow> 'b list \<times> 's" where
  "map_effect f [] s = ([], s)"
| "map_effect f (x # xs) s =
     (let (y, s1) = f x s; (ys, s2) = map_effect f xs s1 in (y # ys, s2))"

definition validateAll :: "page \<Rightarrow> bool \<times> page" where
  "validateAll d =
     (let (errors, d1) = map_effect validateField validators_values d
      in (list_all (\<lambda>e. e = None) errors, d1))"


subsection \<open>Live validation\<close>

text \<open>The listeners each field's input element gets: validation on blur, clearing on input.\<close>

definition blur_listener :: "config \<Rightarrow> page \<Rightarrow> page" where
  "blur_listener c d = snd (validateField c d)"

definition input_listener :: "config \<Rightarrow> node \<Rightarrow> page \<Rightarrow> page" where
  "input_listener c input d =
     (if getAttribute d input ''aria-invalid'' = Some (lit ''true'') then clearError c d else d)"

subsection \<open>Submission\<close>

text \<open>The element references \<^verbatim>\<open>initContactForm\<close> captures.\<close>

record form_refs =
  form :: node
  submitBtn :: node
  successEl :: node

definition setSubmitLoading :: "form_refs \<Rightarrow> bool \<Rightarrow> page \<Rightarrow> page" where
  "setSubmitLoading refs isLoading d =
     set_textContent (submitBtn refs)
       (if isLoading then lit ''Sending'' @ [8230] else lit ''Send Message'')
       (set_disabled (submitBtn refs) isLoading
         (setAttribute (submitBtn refs) ''data-loading'' (String_bool isLoading) d))"

definition showSuccess :: "form_refs \<Rightarrow> page \<Rightarrow> page" where
  "showSuccess refs d =
     focus (successEl refs)
       (set_hidden (successEl refs) False
         (foldl (\<lambda>d1 n. set_hidden n True d1) d
            (qsa (Either (ByClass ''form-group'') (ByClass ''form-actions'')) (Some (form refs)) d)))"

datatype js_error = TypeError

text \<open>
  \<^verbatim>\<open>qs('.form-actions', form).after(errEl)\<close> dereferences the result of the query: a
  \<^verbatim>\<open>TypeError\<close> is thrown when the form has no such element.
\<close>

definition showSubmitError :: "form_refs \<Rightarrow> jsstring \<Rightarrow> page \<Rightarrow> js_error + page" where
  "showSubmitError refs message d =
     (case qs (ById (lit ''submit-error'')) (Some (form refs)) d of
        Some errEl \<Rightarrow> Inr (set_textContent errEl message d)
      | None \<Rightarrow>
          (let (errEl, d1) = createElement ''p'' d;
               d2 = setAttribute errEl ''id'' (lit ''submit-error'') d1;
               d3 = setAttribute errEl ''role'' (lit ''alert'') d2;
               d4 = setAttribute errEl ''aria-live'' (lit ''assertive'') d3;
               d5 = classList_add errEl ''form-error'' d4
           in case qs (ByClass ''form-actions'') (Some (form refs)) d5 of
                None \<Rightarrow> Inl TypeError
              | Some actions \<Rightarrow> Inr (set_textContent errEl message (insert_after actions errEl d5))))"

text \<open>The promise of \<^verbatim>\<open>simulateSend\<close> is resolved by a timer of 1000 ms and never rejected.\<close>

definition simulateSend :: "page \<Rightarrow> page" where
  "simulateSend d = setTimeout ResolveSend 1000 d"

record event =
  defaultPrevented :: bool

definition preventDefault :: "event \<Rightarrow> event" where
  "preventDefault e = e\<lparr>defaultPrevented := True\<rparr>"

text \<open>
  The submit listener is an async function. \<open>submit_listener\<close> is its run up to the
  \<^verbatim>\<open>return\<close> of the invalid branch or up to the \<^verbatim>\<open>await\<close>; \<open>submit_resume\<close> is the rest,
  run when the awaited send settles. \<open>Rejected\<close> is the outcome of a failing send, which
  the \<^verbatim>\<open>catch\<close> branch handles.
\<close>

datatype submit_state = Returned | AwaitingSend

datatype send_result = Resolved | Rejected

definition submit_listener :: "form_refs \<Rightarrow> event \<Rightarrow> page \<Rightarrow> event \<times> page \<times> submit_state" where
  "submit_listener refs e d =
     (let e1 = preventDefault e;
          (isValid, d1) = validateAll d
      in if \<not> isValid
         then (e1,
               (case qs (AttrEq ''aria-invalid'' (lit ''true'')) (Some (form refs)) d1 of
                  None \<Rightarrow> d1
                | Some firstInvalid \<Rightarrow> focus firstInvalid d1),
               Returned)
         else (e1, simulateSend (setSubmitLoading refs True d1), AwaitingSend))"

definition submit_resume :: "form_refs \<Rightarrow> send_result \<Rightarrow> page \<Rightarrow> js_error + page" where
  "submit_resume refs r d =
     (case r of
        Resolved \<Rightarrow> Inr (showSuccess refs d)
      | Rejected \<Rightarrow>
          (case showSubmitError refs
                  (lit ''Something went wrong. Please try again or email me directly.'') d of
             Inl err \<Rightarrow> Inl err
           | Inr d1 \<Rightarrow> Inr (setSubmitLoading refs False d1)))"

subsection \<open>Initialisation\<close>

definition wire_field :: "field \<Rightarrow> page \<Rightarrow> page" where
  "wire_field f d =
     (case el (validators f) d of
        None \<Rightarrow> d
      | Some input \<Rightarrow>
          addEventListener (Element input) ''input'' (FieldInput f input)
            (addEventListener (Element input) ''blur'' (FieldBlur f) d))"

definition initContactForm :: "page \<Rightarrow> form_refs option \<times> page" where
  "initContactForm d =
     (let form_el = qs (ById (lit ''contact-form'')) None d;
          submit_el = qs (ById (lit ''submit-btn'')) form_el d;
          success_el = qs (ById (lit ''form-success'')) None d
      in case (form_el, submit_el, success_el) of
           (Some f, Some b, Some s) \<Rightarrow>
             (Some \<lparr>form = f, submitBtn = b, successEl = s\<rparr>,
              addEventListener (Element f) ''submit'' FormSubmit
                (foldl (\<lambda>d1 fld. wire_field fld d1) d [Name, Email, Message]))
         | _ \<Rightarrow> (None, d))"


section \<open>Section highlight\<close>

text \<open>
  The closure state of \<^verbatim>\<open>initNavHighlight\<close>. A JavaScript \<^verbatim>\<open>Map\<close> iterates in insertion
  order and keeps the position of a key that is set again, so \<open>ratioMap\<close> is an association
  list updated by \<open>map_set\<close>. Intersection ratios are numbers compared with \<^verbatim>\<open>>\<close>.
  \<open>record_entries\<close> is the first loop of the observer's callback, \<open>top_section\<close> the second;
  \<^verbatim>\<open>if (topId)\<close> rejects null and the empty string.
\<close>

record nav_state =
  navLinks :: "node list"
  activeId :: "jsstring option"
  ratioMap :: "(jsstring \<times> real) list"

fun map_set :: "'k \<Rightarrow> 'v \<Rightarrow> ('k \<times> 'v) list \<Rightarrow> ('k \<times> 'v) list" where
  "map_set k v [] = [(k, v)]"
| "map_set k v ((k1, v1) # m) = (if k1 = k then (k, v) # m else (k1, v1) # map_set k v m)"

definition setActive :: "jsstring \<Rightarrow> nav_state \<times> page \<Rightarrow> nav_state \<times> page" where
  "setActive i sd =
     (case sd of (st, d) \<Rightarrow>
        if Some i = activeId st then (st, d)
        else (st\<lparr>activeId := Some i\<rparr>,
              foldl (\<lambda>d1 link.
                       (let isActive = (getAttribute d1 link ''data-section'' = Some i)
                        in setAttribute link ''aria-current''
                             (if isActive then lit ''true'' else lit ''false'')
                             (classList_toggle link ''is-active'' isActive d1)))
                d (navLinks st)))"

definition top_section :: "(jsstring \<times> real) list \<Rightarrow> jsstring option \<times> real" where
  "top_section m =
     foldl (\<lambda>(topId, topRatio) (i, ratio).
              if ratio > topRatio then (Some i, ratio) else (topId, topRatio))
       (None, 0) m"

definition record_entries ::
  "page \<Rightarrow> (node \<times> real) list \<Rightarrow> (jsstring \<times> real) list \<Rightarrow> (jsstring \<times> real) list" where
  "record_entries d entries m =
     foldl (\<lambda>m1 (t, ratio). map_set (element_id d t) ratio m1) m entries"

definition observer_callback :: "(node \<times> real) list \<Rightarrow> nav_state \<times> page \<Rightarrow> nav_state \<times> page" where
  "observer_callback entries sd =
     (case sd of (st, d) \<Rightarrow>
        (let st1 = st\<lparr>ratioMap := record_entries d entries (ratioMap st)\<rparr>
         in case fst (top_section (ratioMap st1)) of
              None \<Rightarrow> (st1, d)
            | Some topId \<Rightarrow> if topId \<noteq> [] then setActive topId (st1, d) else (st1, d)))"

definition initNavHighlight :: "page \<Rightarrow> nav_state option \<times> page" where
  "initNavHighlight d =
     (let links = qsa (Both (ByClass ''nav-link'') (HasAttr ''data-section'')) None d;
          sections = qsa (Both (ByTag ''section'') (HasAttr ''id'')) None d
      in if links = [] \<or> sections = [] then (None, d)
         else (Some \<lparr>navLinks = links, activeId = None,
                     ratioMap = foldl (\<lambda>m s. map_set (element_id d s) 0 m) [] sections\<rparr>,
               addEventListener Window ''resize'' NavResize
                 (foldl (\<lambda>d1 s. addEventListener (Element s) ''intersection'' NavIntersection d1)
                    d sections)))"


section \<open>Smooth scroll and mobile navigation\<close>

definition initSmoothScroll :: "page \<Rightarrow> page" where
  "initSmoothScroll d = addEventListener Document ''click'' SmoothScrollClick d"

definition initMobileNav :: "page \<Rightarrow> page" where
  "initMobileNav d =
     (case (qs (ByClass ''nav-toggle'') None d, qs (ById (lit ''primary-nav'')) None d) of
        (Some toggle, Some nav) \<Rightarrow>
          addEventListener Document ''keydown'' MobileEscapeKey
            (addEventListener Document ''click'' MobileOutsideClick
              (foldl (\<lambda>d1 link. addEventListener (Element link) ''click'' MobileLinkClick d1)
                 (addEventListener (Element toggle) ''click'' MobileToggleClick d)
                 (qsa (ByClass ''nav-link'') (Some nav) d)))
      | _ \<Rightarrow> d)"


section \<open>Skill filter\<close>

record filter_refs =
  filterGroup :: "node option"
  filterBtns :: "node list"
  skillItems :: "node list"
  emptyState :: "node option"

text \<open>
  \<open>applyFilter\<close> is the function of \<^verbatim>\<open>script.js\<close>, which marks hidden items with the
  attribute \<^verbatim>\<open>data-hidden\<close>; \<open>applyFilter_display\<close> is the function of the second script
  file, which sets \<^verbatim>\<open>style.display\<close>. The filter is the value of \<^verbatim>\<open>getAttribute\<close>: a string
  or null. \<open>filter_item\<close> and \<open>filter_item_display\<close> are the bodies of the two loops, with
  the counter of visible items.
\<close>

definition filter_item :: "jsstring option \<Rightarrow> page \<times> nat \<Rightarrow> node \<Rightarrow> page \<times> nat" where
  "filter_item activeFilter acc item =
     (case acc of (d, visibleCount) \<Rightarrow>
        (let category = getAttribute d item ''data-category'';
             match = (activeFilter = Some (lit ''all'') \<or> category = activeFilter)
         in if match then (removeAttribute item ''data-hidden'' d, Suc visibleCount)
            else (setAttribute item ''data-hidden'' (lit ''true'') d, visibleCount)))"

definition applyFilter :: "filter_refs \<Rightarrow> jsstring option \<Rightarrow> page \<Rightarrow> page" where
  "applyFilter refs activeFilter d =
     (let (d1, visibleCount) = foldl (filter_item activeFilter) (d, 0) (skillItems refs)
      in case emptyState refs of
           None \<Rightarrow> d1
         | Some e \<Rightarrow> set_hidden e (visibleCount > 0) d1)"

definition filter_item_display :: "jsstring option \<Rightarrow> page \<times> nat \<Rightarrow> node \<Rightarrow> page \<times> nat" where
  "filter_item_display val acc item =
     (case acc of (d, visible) \<Rightarrow>
        (let match = (val = Some (lit ''all'') \<or> getAttribute d item ''data-category'' = val)
         in if match then (set_display item [] d, Suc visible)
            else (set_display item (lit ''none'') d, visible)))"

definition applyFilter_display :: "filter_refs \<Rightarrow> jsstring option \<Rightarrow> page \<Rightarrow> page" where
  "applyFilter_display refs val d =
     (let (d1, visible) = foldl (filter_item_display val) (d, 0) (skillItems refs)
      in case emptyState refs of
           None \<Rightarrow> d1
         | Some e \<Rightarrow> set_hidden e (visible > 0) d1)"

definition setActiveBtn :: "filter_refs \<Rightarrow> node \<Rightarrow> page \<Rightarrow> page" where
  "setActiveBtn refs activeBtn d =
     foldl (\<lambda>d1 btn.
              classList_toggle btn ''filter-btn--active'' (btn = activeBtn)
                (setAttribute btn ''aria-pressed'' (String_bool (btn = activeBtn)) d1))
       d (filterBtns refs)"

definition filter_click :: "filter_refs \<Rightarrow> node \<Rightarrow> page \<Rightarrow> page" where
  "filter_click refs btn d =
     (let activeFilter = getAttribute d btn ''data-filter''
      in applyFilter refs activeFilter (setActiveBtn refs btn d))"

definition filter_click_display :: "filter_refs \<Rightarrow> node \<Rightarrow> page \<Rightarrow> page" where
  "filter_click_display refs btn d =
     (let val = getAttribute d btn ''data-filter''
      in applyFilter_display refs val (setActiveBtn refs btn d))"

definition initSkillFilter :: "page \<Rightarrow> filter_refs option \<times> page" where
  "initSkillFilter d =
     (let grp = qs (ByClass ''skills-filters'') None d;
          btns = qsa (ByClass ''filter-btn'') grp d;
          items = qsa (ByClass ''skill-item'') None d;
          empty = qs (ById (lit ''skills-empty'')) None d
      in if btns = [] \<or> items = [] then (None, d)
         else (Some \<lparr>filterGroup = grp, filterBtns = btns, skillItems = items, emptyState = empty\<rparr>,
               (let d1 = foldl (\<lambda>d0 btn. addEventListener (Element btn) ''click'' (FilterClick btn) d0)
                           d btns
                in case grp of
                     None \<Rightarrow> d1
                   | Some g \<Rightarrow> addEventListener (Element g) ''keydown'' FilterKeydown d1)))"

definition initSkillFilter_display :: "page \<Rightarrow> filter_refs option \<times> page" where
  "initSkillFilter_display d =
     (case (qs (ByClass ''skills-filters'') None d, qs (ById (lit ''skills-list'')) None d) of
        (Some grp, Some lst) \<Rightarrow>
          (let btns = qsa (HasAttr ''data-filter'') (Some grp) d;
               items = qsa (HasAttr ''data-category'') (Some lst) d
           in if btns = [] \<or> items = [] then (None, d)
              else (Some \<lparr>filterGroup = Some grp, filterBtns = btns, skillItems = items,
                          emptyState = qs (ById (lit ''skills-empty'')) None d\<rparr>,
                    foldl (\<lambda>d0 btn. addEventListener (Element btn) ''click'' (FilterClick btn) d0)
                      d btns))
      | _ \<Rightarrow> (None, d))"


section \<open>Experience accordion\<close>

definition is_open :: "page \<Rightarrow> node \<Rightarrow> bool" where
  "is_open d n = (getAttribute d n ''open'' \<noteq> None)"

text \<open>The first \<^verbatim>\<open>toggle\<close> listener of an entry, with the captured list of all entries.\<close>

definition accordion_toggle :: "node list \<Rightarrow> node \<Rightarrow> page \<Rightarrow> page" where
  "accordion_toggle detailsEls details d =
     (if is_open d details
      then foldl (\<lambda>d1 other.
                    if other \<noteq> details \<and> is_open d1 other then removeAttribute other ''open'' d1
                    else d1)
             d detailsEls
      else d)"

definition syncAria :: "node \<Rightarrow> node \<Rightarrow> page \<Rightarrow> page" where
  "syncAria summary details d =
     setAttribute summary ''aria-expanded'' (String_bool (is_open d details)) d"

text \<open>
  A \<^verbatim>\<open>toggle\<close> event on an entry runs its listeners in the order of registration: the
  accordion listener, then \<^verbatim>\<open>syncAria\<close> when the entry had a summary at initialisation
  (\<open>summary\<close> is the captured reference).
\<close>

definition on_toggle :: "node list \<Rightarrow> node \<Rightarrow> node option \<Rightarrow> page \<Rightarrow> page" where
  "on_toggle detailsEls details summary d =
     (let d1 = accordion_toggle detailsEls details d
      in case summary of
           None \<Rightarrow> d1
         | Some sm \<Rightarrow> syncAria sm details d1)"

text \<open>What the browser does when the user opens or closes an entry, before the event.\<close>

definition user_toggle :: "node \<Rightarrow> page \<Rightarrow> page" where
  "user_toggle n d = (if is_open d n then removeAttribute n ''open'' d else setAttribute n ''open'' [] d)"

definition wire_summary :: "node \<Rightarrow> page \<Rightarrow> page" where
  "wire_summary details d =
     (case qs (ByTag ''summary'') (Some details) d of
        None \<Rightarrow> d
      | Some summary \<Rightarrow>
          syncAria summary details
            (addEventListener (Element details) ''toggle'' (SyncAria summary details)
              (addEventListener (Element summary) ''keydown'' (SummaryKeydown summary) d)))"

definition initExperience :: "page \<Rightarrow> page" where
  "initExperience d =
     (let detailsEls = qsa (ByClass ''experience-details'') None d
      in if detailsEls = [] then d
         else foldl (\<lambda>d1 details. wire_summary details d1)
                (foldl (\<lambda>d1 details.
                          addEventListener (Element details) ''toggle'' (AccordionToggle details) d1)
                   d detailsEls)
                detailsEls)"


section \<open>Copy email (second script file)\<close>

definition initCopyEmail :: "page \<Rightarrow> page" where
  "initCopyEmail d =
     (case (qs (ById (lit ''copy-email-btn'')) None d, qs (ById (lit ''copy-confirm'')) None d) of
        (Some btn, Some confirm) \<Rightarrow>
          addEventListener (Element btn) ''keydown'' CopyKeydown
            (addEventListener (Element btn) ''click'' CopyClick d)
      | _ \<Rightarrow> d)"


section \<open>Page initialisation\<close>

text \<open>
  The modules of the two script files. \<open>init_module\<close> is the effect of a module's
  initialiser on the page (its closure state is dropped), and the \<^verbatim>\<open>DOMContentLoaded\<close>
  listener of each file runs its six initialisers in order.
\<close>

datatype module =
    SmoothScroll
  | NavHighlight
  | MobileNav
  | SkillFilter
  | SkillFilterDisplay
  | Experience
  | ContactForm
  | CopyEmail

fun init_module :: "module \<Rightarrow> page \<Rightarrow> page" where
  "init_module SmoothScroll d = initSmoothScroll d"
| "init_module NavHighlight d = snd (initNavHighlight d)"
| "init_module MobileNav d = initMobileNav d"
| "init_module SkillFilter d = snd (initSkillFilter d)"
| "init_module SkillFilterDisplay d = snd (initSkillFilter_display d)"
| "init_module Experience d = initExperience d"
| "init_module ContactForm d = snd (initContactForm d)"
| "init_module CopyEmail d = initCopyEmail d"

definition init_sequence :: "module list \<Rightarrow> page \<Rightarrow> page" where
  "init_sequence ms d = foldl (\<lambda>p m. init_module m p) d ms"

definition init_all :: "page \<Rightarrow> page" where
  "init_all d =
     init_sequence [SmoothScroll, NavHighlight, MobileNav, SkillFilter, Experience, ContactForm] d"

definition init_all_second :: "page \<Rightarrow> page" where
  "init_all_second d =
     init_sequence
       [SmoothScroll, NavHighlight, MobileNav, SkillFilterDisplay, Experience, CopyEmail] d"

text \<open>
  The test each initialiser makes before it goes on (the negation of the condition of its
  early \<^verbatim>\<open>return\<close>). \<^verbatim>\<open>initSmoothScroll\<close> makes none.
\<close>

fun guard :: "module \<Rightarrow> page \<Rightarrow> bool" where
  "guard SmoothScroll d = True"
| "guard NavHighlight d =
     (qsa (Both (ByClass ''nav-link'') (HasAttr ''data-section'')) None d \<noteq> []
      \<and> qsa (Both (ByTag ''section'') (HasAttr ''id'')) None d \<noteq> [])"
| "guard MobileNav d =
     (qs (ByClass ''nav-toggle'') None d \<noteq> None \<and> qs (ById (lit ''primary-nav'')) None d \<noteq> None)"
| "guard SkillFilter d =
     (qsa (ByClass ''filter-btn'') (qs (ByClass ''skills-filters'') None d) d \<noteq> []
      \<and> qsa (ByClass ''skill-item'') None d \<noteq> [])"
| "guard SkillFilterDisplay d =
     (case (qs (ByClass ''skills-filters'') None d, qs (ById (lit ''skills-list'')) None d) of
        (Some grp, Some lst) \<Rightarrow>
          qsa (HasAttr ''data-filter'') (Some grp) d \<noteq> []
          \<and> qsa (HasAttr ''data-category'') (Some lst) d \<noteq> []
      | _ \<Rightarrow> False)"
| "guard Experience d = (qsa (ByClass ''experience-details'') None d \<noteq> [])"
| "guard ContactForm d =
     (qs (ById (lit ''contact-form'')) None d \<noteq> None
      \<and> qs (ById (lit ''submit-btn'')) (qs (ById (lit ''contact-form'')) None d) d \<noteq> None
      \<and> qs (ById (lit ''form-success'')) None d \<noteq> None)"
| "guard CopyEmail d =
     (qs (ById (lit ''copy-email-btn'')) None d \<noteq> None
      \<and> qs (ById (lit ''copy-confirm'')) None d \<noteq> None)"


section \<open>Notions used to state the properties\<close>

text \<open>An element without element children: assigning its text removes nothing.\<close>

definition childless :: "page \<Rightarrow> node \<Rightarrow> bool" where
  "childless d n = (\<forall>m \<in> set (doc_order d). n \<notin> set (ancestors (nodes d m)))"

text \<open>
  A field whose three elements are in the document, \<open>i\<close> the input, \<open>e\<close> the error
  element (which holds text only) and \<open>g\<close> the group.
\<close>

definition field_present :: "config \<Rightarrow> page \<Rightarrow> node \<Rightarrow> node \<Rightarrow> node \<Rightarrow> bool" where
  "field_present c d i e g =
     (el c d = Some i \<and> errorEl c d = Some e \<and> groupEl c d = Some g \<and> childless d e)"

text \<open>What \<open>showError\<close> (for an error) or \<open>clearError\<close> (for none) does to a present field.\<close>

definition mark_field :: "node \<Rightarrow> node \<Rightarrow> node \<Rightarrow> jsstring option \<Rightarrow> page \<Rightarrow> page" where
  "mark_field i e g err d =
     (if truthy err
      then classList_add g ''form-group--error''
             (set_textContent e (the err) (setAttribute i ''aria-invalid'' (lit ''true'') d))
      else classList_remove g ''form-group--error''
             (set_textContent e [] (removeAttribute i ''aria-invalid'' d)))"

text \<open>The page after \<open>validateAll\<close> when the three fields are present.\<close>

definition validated :: "page \<Rightarrow> node \<Rightarrow> node \<Rightarrow> node \<Rightarrow> node \<Rightarrow> node \<Rightarrow> node \<Rightarrow> node \<Rightarrow> node \<Rightarrow> node \<Rightarrow> page" where
  "validated d ni ne ng ei ee eg mi me mg =
     mark_field mi me mg (validate_message (el_value (nodes d mi)))
       (mark_field ei ee eg (validate_email (el_value (nodes d ei)))
         (mark_field ni ne ng (validate_name (el_value (nodes d ni))) d))"

text \<open>
  A field the script can handle: its input is absent, or all three of its elements are
  there. \<open>field_valid\<close> is the verdict of the field's rule on the current value, an absent
  input counting as valid.
\<close>

definition field_usable :: "field \<Rightarrow> page \<Rightarrow> bool" where
  "field_usable f d =
     (case (el (validators f) d, errorEl (validators f) d, groupEl (validators f) d) of
        (None, _, _) \<Rightarrow> True
      | (Some i, Some e, Some g) \<Rightarrow> childless d e
      | _ \<Rightarrow> False)"

definition field_valid :: "field \<Rightarrow> page \<Rightarrow> bool" where
  "field_valid f d =
     (case el (validators f) d of
        None \<Rightarrow> True
      | Some i \<Rightarrow> validate (validators f) (el_value (nodes d i)) = None)"

text \<open>
  The inputs of the fields whose rule rejects the current value, and document order:
  \<open>a\<close> occurs in the document before \<open>b\<close> does.
\<close>

definition invalid_inputs :: "page \<Rightarrow> node set" where
  "invalid_inputs d =
     {i. \<exists>f. el (validators f) d = Some i
            \<and> validate (validators f) (el_value (nodes d i)) \<noteq> None}"

definition comes_before :: "page \<Rightarrow> node \<Rightarrow> node \<Rightarrow> bool" where
  "comes_before d a b = (a \<in> set (takeWhile (\<lambda>k. k \<noteq> b) (doc_order d)))"

text \<open>
  A well-formed store: the nodes of the document and their ancestors were allocated
  before \<open>fresh\<close>, and no node is its own ancestor.
\<close>

definition wf_page :: "page \<Rightarrow> bool" where
  "wf_page d =
     (\<forall>k \<in> set (doc_order d).
        k < fresh d \<and> k \<notin> set (ancestors (nodes d k))
        \<and> (\<forall>a \<in> set (ancestors (nodes d k)). a < fresh d))"

text \<open>The entries of the accordion that are open.\<close>

definition open_entries :: "node list \<Rightarrow> page \<Rightarrow> node set" where
  "open_entries detailsEls d = {n \<in> set detailsEls. is_open d n}"

text \<open>The test both filter functions apply to an item, on the page before the filter runs.\<close>

definition filter_match :: "jsstring option \<Rightarrow> page \<Rightarrow> node \<Rightarrow> bool" where
  "filter_match v d i = (v = Some (lit ''all'') \<or> getAttribute d i ''data-category'' = v)"

text \<open>
  The elements the specification expects of the page for the contact form (its section on
  external interfaces): a form with three fields and matching error and group elements, a
  submit control and a success element.
\<close>

definition spec_expected_contact_form :: "page \<Rightarrow> bool" where
  "spec_expected_contact_form d =
     (qs (ById (lit ''contact-form'')) None d \<noteq> None
      \<and> qs (ById (lit ''submit-btn'')) (qs (ById (lit ''contact-form'')) None d) d \<noteq> None
      \<and> qs (ById (lit ''form-success'')) None d \<noteq> None
      \<and> (\<forall>f. el (validators f) d \<noteq> None \<and> errorEl (validators f) d \<noteq> None
             \<and> groupEl (validators f) d \<noteq> None))"

text \<open>
  Two pages with the same elements in the same order that differ at most in listeners and
  in the attribute \<^verbatim>\<open>aria-expanded\<close>, the only attribute an initialiser writes; and the
  selectors that do not read that attribute.
\<close>

definition same_elements :: "page \<Rightarrow> page \<Rightarrow> bool" where
  "same_elements d d1 =
     (doc_order d1 = doc_order d \<and>
      (\<forall>n. tag (nodes d1 n) = tag (nodes d n)
         \<and> classes (nodes d1 n) = classes (nodes d n)
         \<and> ancestors (nodes d1 n) = ancestors (nodes d n)
         \<and> (\<forall>k. k \<noteq> ''aria-expanded'' \<longrightarrow> attrs (nodes d1 n) k = attrs (nodes d n) k)))"

fun aria_free :: "selector \<Rightarrow> bool" where
  "aria_free (HasAttr k) = (k \<noteq> ''aria-expanded'')"
| "aria_free (AttrEq k v) = (k \<noteq> ''aria-expanded'')"
| "aria_free (AttrPrefix k v) = (k \<noteq> ''aria-expanded'')"
| "aria_free (Both a b) = (aria_free a \<and> aria_free b)"
| "aria_free (Either a b) = (aria_free a \<and> aria_free b)"
| "aria_free s = True"

text \<open>Two pages with the same elements in the same places, ids and values.\<close>

definition same_outline :: "page \<Rightarrow> page \<Rightarrow> bool" where
  "same_outline d d1 =
     (doc_order d1 = doc_order d \<and>
      (\<forall>m. ancestors (nodes d1 m) = ancestors (nodes d m)
         \<and> attrs (nodes d1 m) ''id'' = attrs (nodes d m) ''id''
         \<and> el_value (nodes d1 m) = el_value (nodes d m)))"

subsection \<open>Example pages\<close>

definition elem ::
  "string \<Rightarrow> (string \<times> jsstring) list \<Rightarrow> string set \<Rightarrow> node list \<Rightarrow> jsstring \<Rightarrow> element" where
  "elem t as cs anc v =
     \<lparr>tag = t, attrs = map_of as, classes = cs, textContent = [], el_value = v,
      display = [], ancestors = anc\<rparr>"

definition page_of :: "element list \<Rightarrow> node list \<Rightarrow> page" where
  "page_of es ord =
     \<lparr>nodes = (\<lambda>n. if n < length es then es ! n else blank []),
      doc_order = ord, activeElement = None, timers = [], listeners = [],
      fresh = length es\<rparr>"

text \<open>A contact form with the three fields holding the given values.\<close>

definition contact_example :: "jsstring \<Rightarrow> jsstring \<Rightarrow> jsstring \<Rightarrow> page" where
  "contact_example n e m =
     page_of
       [elem ''form'' [(''id'', lit ''contact-form'')] {} [] [],
        elem ''div'' [(''id'', lit ''group-name'')] {''form-group''} [0] [],
        elem ''input'' [(''id'', lit ''field-name'')] {} [1, 0] n,
        elem ''p'' [(''id'', lit ''error-name'')] {} [1, 0] [],
        elem ''div'' [(''id'', lit ''group-email'')] {''form-group''} [0] [],
        elem ''input'' [(''id'', lit ''field-email'')] {} [4, 0] e,
        elem ''p'' [(''id'', lit ''error-email'')] {} [4, 0] [],
        elem ''div'' [(''id'', lit ''group-message'')] {''form-group''} [0] [],
        elem ''textarea'' [(''id'', lit ''field-message'')] {} [7, 0] m,
        elem ''p'' [(''id'', lit ''error-message'')] {} [7, 0] [],
        elem ''div'' [] {''form-actions''} [0] [],
        elem ''button'' [(''id'', lit ''submit-btn'')] {} [10, 0] [],
        elem ''div'' [(''id'', lit ''form-success''), (''hidden'', []), (''tabindex'', lit ''-1'')]
          {} [0] []]
       [0, 1, 2, 3, 4, 5, 6, 7, 8, 9, 10, 11, 12]"

definition contact_refs :: form_refs where
  "contact_refs = \<lparr>form = 0, submitBtn = 11, successEl = 12\<rparr>"

text \<open>A contact form that has lost its three fields.\<close>

definition contact_no_fields :: page where
  "contact_no_fields =
     page_of
       [elem ''form'' [(''id'', lit ''contact-form'')] {} [] [],
        elem ''div'' [] {''form-actions''} [0] [],
        elem ''button'' [(''id'', lit ''submit-btn'')] {} [1, 0] [],
        elem ''div'' [(''id'', lit ''form-success''), (''hidden'', [])] {} [0] []]
       [0, 1, 2, 3]"

text \<open>Three experience entries, each with a summary; the first one is open.\<close>

definition accordion_example :: page where
  "accordion_example =
     page_of
       [elem ''details'' [(''open'', [])] {''experience-details''} [] [],
        elem ''summary'' [] {} [0] [],
        elem ''details'' [] {''experience-details''} [] [],
        elem ''summary'' [] {} [2] [],
        elem ''details'' [] {''experience-details''} [] [],
        elem ''summary'' [] {} [4] []]
       [0, 1, 2, 3, 4, 5]"

text \<open>A skills section: three filter controls, three items and the empty-state element.\<close>

definition skills_example :: page where
  "skills_example =
     page_of
       [elem ''div'' [] {''skills-filters''} [] [],
        elem ''button'' [(''data-filter'', lit ''all'')] {''filter-btn''} [0] [],
        elem ''button'' [(''data-filter'', lit ''design'')] {''filter-btn''} [0] [],
        elem ''button'' [(''data-filter'', lit ''ops'')] {''filter-btn''} [0] [],
        elem ''ul'' [(''id'', lit ''skills-list'')] {} [] [],
        elem ''li'' [(''data-category'', lit ''design'')] {''skill-item''} [4] [],
        elem ''li'' [(''data-category'', lit ''code'')] {''skill-item''} [4] [],
        elem ''li'' [(''data-category'', lit ''design'')] {''skill-item''} [4] [],
        elem ''p'' [(''id'', lit ''skills-empty''), (''hidden'', [])] {} [] []]
       [0, 1, 2, 3, 4, 5, 6, 7, 8]"

definition skills_refs :: filter_refs where
  "skills_refs =
     \<lparr>filterGroup = Some 0, filterBtns = [1, 2, 3], skillItems = [5, 6, 7], emptyState = Some 8\<rparr>"

text \<open>Two navigation links and their two sections, \<^verbatim>\<open>a\<close> before \<^verbatim>\<open>b\<close>.\<close>

definition nav_example :: page where
  "nav_example =
     page_of
       [elem ''a'' [(''data-section'', lit ''a'')] {''nav-link''} [] [],
        elem ''a'' [(''data-section'', lit ''b'')] {''nav-link''} [] [],
        elem ''section'' [(''id'', lit ''a'')] {} [] [],
        elem ''section'' [(''id'', lit ''b'')] {} [] []]
       [0, 1, 2, 3]"

definition nav_example_state :: nav_state where
  "nav_example_state =
     \<lparr>navLinks = [0, 1], activeId = None, ratioMap = [(lit ''a'', 0), (lit ''b'', 0)]\<rparr>"

text \<open>
  A contact form with every element the script looks up by id, where the submit control
  sits directly in the form and the success element carries no \<^verbatim>\<open>tabindex\<close>.
\<close>

definition contact_plain :: "jsstring \<Rightarrow> jsstring \<Rightarrow> jsstring \<Rightarrow> page" where
  "contact_plain n e m =
     page_of
       [elem ''form'' [(''id'', lit ''contact-form'')] {} [] [],
        elem ''div'' [(''id'', lit ''group-name'')] {''form-group''} [0] [],
        elem ''input'' [(''id'', lit ''field-name'')] {} [1, 0] n,
        elem ''p'' [(''id'', lit ''error-name'')] {} [1, 0] [],
        elem ''div'' [(''id'', lit ''group-email'')] {''form-group''} [0] [],
        elem ''input'' [(''id'', lit ''field-email'')] {} [4, 0] e,
        elem ''p'' [(''id'', lit ''error-email'')] {} [4, 0] [],
        elem ''div'' [(''id'', lit ''group-message'')] {''form-group''} [0] [],
        elem ''textarea'' [(''id'', lit ''field-message'')] {} [7, 0] m,
        elem ''p'' [(''id'', lit ''error-message'')] {} [7, 0] [],
        elem ''button'' [(''id'', lit ''submit-btn'')] {} [0] [],
        elem ''div'' [(''id'', lit ''form-success''), (''hidden'', [])] {} [0] []]
       [0, 1, 2, 3, 4, 5, 6, 7, 8, 9, 10, 11]"

definition plain_refs :: form_refs where
  "plain_refs = \<lparr>form = 0, submitBtn = 10, successEl = 11\<rparr>"

text \<open>The first contact form with a hidden error element already in the form.\<close>

definition contact_hidden_error :: "jsstring \<Rightarrow> jsstring \<Rightarrow> jsstring \<Rightarrow> page" where
  "contact_hidden_error n e m =
     page_of
       [elem ''form'' [(''id'', lit ''contact-form'')] {} [] [],
        elem ''div'' [(''id'', lit ''group-name'')] {''form-group''} [0] [],
        elem ''input'' [(''id'', lit ''field-name'')] {} [1, 0] n,
        elem ''p'' [(''id'', lit ''error-name'')] {} [1, 0] [],
        elem ''div'' [(''id'', lit ''group-email'')] {''form-group''} [0] [],
        elem ''input'' [(''id'', lit ''field-email'')] {} [4, 0] e,
        elem ''p'' [(''id'', lit ''error-email'')] {} [4, 0] [],
        elem ''div'' [(''id'', lit ''group-message'')] {''form-group''} [0] [],
        elem ''textarea'' [(''id'', lit ''field-message'')] {} [7, 0] m,
        elem ''p'' [(''id'', lit ''error-message'')] {} [7, 0] [],
        elem ''div'' [] {''form-actions''} [0] [],
        elem ''button'' [(''id'', lit ''submit-btn'')] {} [10, 0] [],
        elem ''div'' [(''id'', lit ''form-success''), (''hidden'', []), (''tabindex'', lit ''-1'')]
          {} [0] [],
        elem ''p'' [(''id'', lit ''submit-error''), (''hidden'', [])] {} [0] []]
       [0, 1, 2, 3, 4, 5, 6, 7, 8, 9, 10, 11, 13, 12]"

text \<open>
  The two pages above holding valid values, and their states when the submit listener
  has started the send.
\<close>

definition valid_plain :: page where
  "valid_plain = contact_plain (lit ''Ada'') (lit ''a@b.c'') (lit ''this is long enough'')"

definition valid_plain_sending :: page where
  "valid_plain_sending =
     fst (snd (submit_listener plain_refs \<lparr>defaultPrevented = False\<rparr> valid_plain))"

definition valid_hidden_error :: page where
  "valid_hidden_error =
     contact_hidden_error (lit ''Ada'') (lit ''a@b.c'') (lit ''this is long enough'')"

definition valid_hidden_error_sending :: page where
  "valid_hidden_error_sending =
     fst (snd (submit_listener contact_refs \<lparr>defaultPrevented = False\<rparr> valid_hidden_error))"


section \<open>Properties\<close>

subsection \<open>The language of the email pattern\<close>

lemma re_test_One:
  "re_test (One k # r) s \<longleftrightarrow> (\<exists>c b. s = c # b \<and> in_class k c \<and> re_test r b)"
  by (cases s) simp_all

lemma re_test_Many1:
  "re_test (Many1 k # r) s
     \<longleftrightarrow> (\<exists>a b. s = a @ b \<and> a \<noteq> [] \<and> list_all (in_class k) a \<and> re_test r b)"
proof (induction s)
  case Nil
  show ?case by simp
next
  case (Cons c s)
  show ?case
  proof
    assume "re_test (Many1 k # r) (c # s)"
    then have c: "in_class k c" and alt: "re_test (Many1 k # r) s \<or> re_test r s" by simp_all
    from alt show "\<exists>a b. c # s = a @ b \<and> a \<noteq> [] \<and> list_all (in_class k) a \<and> re_test r b"
    proof
      assume "re_test (Many1 k # r) s"
      then obtain a b where "s = a @ b" "list_all (in_class k) a" "re_test r b"
        using Cons.IH by blast
      then show ?thesis
        using c by (intro exI [of _ "c # a"] exI [of _ b]) simp
    next
      assume "re_test r s"
      then show ?thesis
        using c by (intro exI [of _ "[c]"] exI [of _ s]) simp
    qed
  next
    assume "\<exists>a b. c # s = a @ b \<and> a \<noteq> [] \<and> list_all (in_class k) a \<and> re_test r b"
    then obtain a b where ab: "c # s = a @ b" "a \<noteq> []" "list_all (in_class k) a" "re_test r b"
      by blast
    then obtain a1 where a: "a = c # a1" by (cases a) auto
    with ab have s: "s = a1 @ b" and c: "in_class k c" and rest: "list_all (in_class k) a1"
      by simp_all
    show "re_test (Many1 k # r) (c # s)"
    proof (cases "a1 = []")
      case True
      with s ab(4) c show ?thesis by simp
    next
      case False
      with s rest ab(4) have "re_test (Many1 k # r) s" using Cons.IH by blast
      with c show ?thesis by simp
    qed
  qed
qed

text \<open>
  The strings the email pattern accepts: a non-empty part, \<^verbatim>\<open>@\<close>, a non-empty part, a dot,
  a non-empty part, where no part holds whitespace or \<^verbatim>\<open>@\<close> (so the string has exactly one
  \<^verbatim>\<open>@\<close>, no whitespace, and a dot after the \<^verbatim>\<open>@\<close>).
\<close>

lemma email_re_iff:
  "re_test email_re s \<longleftrightarrow>
     (\<exists>a b c. s = a @ [64] @ b @ [46] @ c \<and> a \<noteq> [] \<and> b \<noteq> [] \<and> c \<noteq> []
        \<and> list_all (in_class NotSpaceAt) a \<and> list_all (in_class NotSpaceAt) b
        \<and> list_all (in_class NotSpaceAt) c)"
proof -
  have last: "re_test [Many1 NotSpaceAt] t \<longleftrightarrow> t \<noteq> [] \<and> list_all (in_class NotSpaceAt) t" for t
    by (auto simp: re_test_Many1)
  have dot: "re_test [One (Exactly 46), Many1 NotSpaceAt] t
      \<longleftrightarrow> (\<exists>c. t = [46] @ c \<and> c \<noteq> [] \<and> list_all (in_class NotSpaceAt) c)" for t
    by (auto simp: re_test_One last)
  have host: "re_test [Many1 NotSpaceAt, One (Exactly 46), Many1 NotSpaceAt] t
      \<longleftrightarrow> (\<exists>b c. t = b @ [46] @ c \<and> b \<noteq> [] \<and> c \<noteq> []
            \<and> list_all (in_class NotSpaceAt) b \<and> list_all (in_class NotSpaceAt) c)" for t
    unfolding re_test_Many1 [of NotSpaceAt "[One (Exactly 46), Many1 NotSpaceAt]"] dot by blast
  have at: "re_test [One (Exactly 64), Many1 NotSpaceAt, One (Exactly 46), Many1 NotSpaceAt] t
      \<longleftrightarrow> (\<exists>b c. t = [64] @ b @ [46] @ c \<and> b \<noteq> [] \<and> c \<noteq> []
            \<and> list_all (in_class NotSpaceAt) b \<and> list_all (in_class NotSpaceAt) c)" for t
    unfolding re_test_One [of "Exactly 64"] host by auto
  show ?thesis
    unfolding email_re_def
      re_test_Many1 [of NotSpaceAt "[One (Exactly 64), Many1 NotSpaceAt, One (Exactly 46), Many1 NotSpaceAt]"]
      at
    by blast
qed


subsection \<open>Strings and field updates\<close>

lemma lit_eq_iff: "lit a = lit b \<longleftrightarrow> a = b"
  by (simp add: lit_def inj_map_eq_map [OF inj_of_char])

lemma lit_eq_Nil [simp]: "lit s = [] \<longleftrightarrow> s = []" "[] = lit s \<longleftrightarrow> s = []"
  by (auto simp: lit_def)

lemma validateField_present:
  assumes "el c d = Some i" "errorEl c d = Some e" "groupEl c d = Some g"
  shows "validateField c d =
           (validate c (el_value (nodes d i)), mark_field i e g (validate c (el_value (nodes d i))) d)"
  using assms by (simp add: validateField_def showError_def clearError_def mark_field_def Let_def)

lemmas dom_ops = setAttribute_def removeAttribute_def classList_add_def classList_remove_def
  set_textContent_def

lemma mark_field_order: "childless d e \<Longrightarrow> doc_order (mark_field i e g err d) = doc_order d"
  by (auto simp: mark_field_def dom_ops childless_def filter_id_conv)

lemma mark_field_attrs:
  "attrs (nodes (mark_field i e g err d) m) k =
     (if m = i \<and> k = ''aria-invalid'' then (if truthy err then Some (lit ''true'') else None)
      else attrs (nodes d m) k)"
  by (auto simp: mark_field_def dom_ops)

lemma mark_field_text:
  "textContent (nodes (mark_field i e g err d) m) =
     (if m = e then (if truthy err then the err else []) else textContent (nodes d m))"
  by (auto simp: mark_field_def dom_ops)

lemma mark_field_classes:
  "classes (nodes (mark_field i e g err d) m) =
     (if m = g then (if truthy err then insert ''form-group--error'' (classes (nodes d m))
                     else classes (nodes d m) - {''form-group--error''})
      else classes (nodes d m))"
  by (auto simp: mark_field_def dom_ops)

lemma mark_field_other [simp]:
  "el_value (nodes (mark_field i e g err d) m) = el_value (nodes d m)"
  "ancestors (nodes (mark_field i e g err d) m) = ancestors (nodes d m)"
  "tag (nodes (mark_field i e g err d) m) = tag (nodes d m)"
  "display (nodes (mark_field i e g err d) m) = display (nodes d m)"
  "activeElement (mark_field i e g err d) = activeElement d"
  "timers (mark_field i e g err d) = timers d"
  "fresh (mark_field i e g err d) = fresh d"
  "listeners (mark_field i e g err d) = listeners d"
  by (auto simp: mark_field_def dom_ops)

lemma mark_field_childless:
  "childless d e \<Longrightarrow> childless (mark_field i e g err d) n = childless d n"
  by (simp add: childless_def mark_field_order)

lemma mark_field_qs_id:
  "childless d e \<Longrightarrow> qs (ById x) r (mark_field i e g err d) = qs (ById x) r d"
  by (cases r) (simp_all add: qs_def mark_field_order mark_field_attrs in_scope_def)


lemma qs_ById_Some: "qs (ById x) r d = Some n \<Longrightarrow> attrs (nodes d n) ''id'' = Some x \<and> n \<in> set (doc_order d)"
  by (auto simp: qs_def find_Some_iff)


lemma validate_name_empty: "validate_name [] = Some (lit ''Name is required.'')"
  by (simp add: validate_name_def trim_def)

lemma validate_email_abc: "validate_email (lit ''a@b.c'') = None"
  by (simp add: validate_email_def trim_def lit_def is_space_def email_re_def)

lemma validate_message_long: "validate_message (lit ''this is long enough'') = None"
  by (simp add: validate_message_def trim_def lit_def is_space_def)

lemma config_sel [simp]:
  "el name_config = qs (ById (lit ''field-name'')) None"
  "errorEl name_config = qs (ById (lit ''error-name'')) None"
  "groupEl name_config = qs (ById (lit ''group-name'')) None"
  "validate name_config = validate_name"
  "el email_config = qs (ById (lit ''field-email'')) None"
  "errorEl email_config = qs (ById (lit ''error-email'')) None"
  "groupEl email_config = qs (ById (lit ''group-email'')) None"
  "validate email_config = validate_email"
  "el message_config = qs (ById (lit ''field-message'')) None"
  "errorEl message_config = qs (ById (lit ''error-message'')) None"
  "groupEl message_config = qs (ById (lit ''group-message'')) None"
  "validate message_config = validate_message"
  by (simp_all add: name_config_def email_config_def message_config_def)

lemma validators_values_eq: "validators_values = [name_config, email_config, message_config]"
  by (simp add: validators_values_def)

lemma validateAll_present:
  assumes n: "field_present name_config d ni ne ng"
      and e: "field_present email_config d ei ee eg"
      and m: "field_present message_config d mi me mg"
  shows "validateAll d =
     (validate_name (el_value (nodes d ni)) = None \<and> validate_email (el_value (nodes d ei)) = None
        \<and> validate_message (el_value (nodes d mi)) = None,
      mark_field mi me mg (validate_message (el_value (nodes d mi)))
        (mark_field ei ee eg (validate_email (el_value (nodes d ei)))
          (mark_field ni ne ng (validate_name (el_value (nodes d ni))) d)))"
proof -
  let ?d1 = "mark_field ni ne ng (validate_name (el_value (nodes d ni))) d"
  let ?d2 = "mark_field ei ee eg (validate_email (el_value (nodes d ei))) ?d1"
  have 1: "validateField name_config d = (validate_name (el_value (nodes d ni)), ?d1)"
    using n by (simp add: field_present_def validateField_present [where i=ni and e=ne and g=ng])
  have e1: "field_present email_config ?d1 ei ee eg" and m1: "field_present message_config ?d1 mi me mg"
    using n e m by (simp_all add: field_present_def mark_field_qs_id mark_field_childless)
  have 2: "validateField email_config ?d1 = (validate_email (el_value (nodes d ei)), ?d2)"
    using e1 by (simp add: field_present_def validateField_present [where i=ei and e=ee and g=eg])
  have m2: "field_present message_config ?d2 mi me mg"
    using e1 m1 by (simp add: field_present_def mark_field_qs_id mark_field_childless)
  have 3: "validateField message_config ?d2 =
             (validate_message (el_value (nodes d mi)), mark_field mi me mg (validate_message (el_value (nodes d mi))) ?d2)"
    using m2 by (simp add: field_present_def validateField_present [where i=mi and e=me and g=mg])
  show ?thesis
    by (simp add: validateAll_def validators_values_eq 1 2 3)
qed

lemma ex_nodes:
  "doc_order (contact_example n e m) = [0, 1, 2, 3, 4, 5, 6, 7, 8, 9, 10, 11, 12]"
  by (simp add: contact_example_def page_of_def)

lemma ex_fields:
  "field_present name_config (contact_example n e m) 2 3 1"
  "field_present email_config (contact_example n e m) 5 6 4"
  "field_present message_config (contact_example n e m) 8 9 7"
  by (simp_all add: field_present_def qs_def in_scope_def childless_def contact_example_def page_of_def elem_def lit_eq_iff)

lemma qs_id_neq:
  assumes "qs (ById x) r d = Some n" and "qs (ById y) r' d = Some m" and "x \<noteq> y"
  shows "n \<noteq> m"
proof
  assume "n = m"
  with qs_ById_Some [OF assms(1)] qs_ById_Some [OF assms(2)] have "Some x = Some y"
    by simp
  with assms(3) show False by simp
qed

lemma fields_distinct:
  assumes "field_present name_config d ni ne ng" "field_present email_config d ei ee eg"
    "field_present message_config d mi me mg"
  shows "ni \<noteq> ei \<and> ni \<noteq> mi \<and> ei \<noteq> mi \<and> ne \<noteq> ee \<and> ne \<noteq> me \<and> ee \<noteq> me
       \<and> ng \<noteq> eg \<and> ng \<noteq> mg \<and> eg \<noteq> mg"
proof -
  have n: "qs (ById (lit ''field-name'')) None d = Some ni"
    "qs (ById (lit ''error-name'')) None d = Some ne"
    "qs (ById (lit ''group-name'')) None d = Some ng"
    using assms(1) by (simp_all add: field_present_def)
  have e: "qs (ById (lit ''field-email'')) None d = Some ei"
    "qs (ById (lit ''error-email'')) None d = Some ee"
    "qs (ById (lit ''group-email'')) None d = Some eg"
    using assms(2) by (simp_all add: field_present_def)
  have m: "qs (ById (lit ''field-message'')) None d = Some mi"
    "qs (ById (lit ''error-message'')) None d = Some me"
    "qs (ById (lit ''group-message'')) None d = Some mg"
    using assms(3) by (simp_all add: field_present_def)
  have "ni \<noteq> ei" by (rule qs_id_neq [OF n(1) e(1)]) (simp add: lit_eq_iff)
  moreover have "ni \<noteq> mi" by (rule qs_id_neq [OF n(1) m(1)]) (simp add: lit_eq_iff)
  moreover have "ei \<noteq> mi" by (rule qs_id_neq [OF e(1) m(1)]) (simp add: lit_eq_iff)
  moreover have "ne \<noteq> ee" by (rule qs_id_neq [OF n(2) e(2)]) (simp add: lit_eq_iff)
  moreover have "ne \<noteq> me" by (rule qs_id_neq [OF n(2) m(2)]) (simp add: lit_eq_iff)
  moreover have "ee \<noteq> me" by (rule qs_id_neq [OF e(2) m(2)]) (simp add: lit_eq_iff)
  moreover have "ng \<noteq> eg" by (rule qs_id_neq [OF n(3) e(3)]) (simp add: lit_eq_iff)
  moreover have "ng \<noteq> mg" by (rule qs_id_neq [OF n(3) m(3)]) (simp add: lit_eq_iff)
  moreover have "eg \<noteq> mg" by (rule qs_id_neq [OF e(3) m(3)]) (simp add: lit_eq_iff)
  ultimately show ?thesis by simp
qed

text \<open>
  Claim C1. On a page whose three fields are present, with the name empty, the email
  \<^verbatim>\<open>a@b.c\<close> and the message \<^verbatim>\<open>this is long enough\<close>, \<open>validateAll\<close> reports the form
  invalid; afterwards the name field alone is in error state (\<^verbatim>\<open>aria-invalid\<close> set, the
  error text stored, the group marked), whatever the error state of the fields was
  before, and the email and message fields have their error state cleared. The email
  value matches the pattern of the rule: it has one \<^verbatim>\<open>@\<close> and no whitespace.
\<close>

theorem C1_empty_name_only_error:
  assumes "field_present name_config d ni ne ng"
    and "field_present email_config d ei ee eg"
    and "field_present message_config d mi me mg"
    and "el_value (nodes d ni) = []"
    and "el_value (nodes d ei) = lit ''a@b.c''"
    and "el_value (nodes d mi) = lit ''this is long enough''"
  shows "\<not> fst (validateAll d)
       \<and> getAttribute (snd (validateAll d)) ni ''aria-invalid'' = Some (lit ''true'')
       \<and> textContent (nodes (snd (validateAll d)) ne) = lit ''Name is required.''
       \<and> ''form-group--error'' \<in> classes (nodes (snd (validateAll d)) ng)
       \<and> getAttribute (snd (validateAll d)) ei ''aria-invalid'' = None
       \<and> textContent (nodes (snd (validateAll d)) ee) = []
       \<and> ''form-group--error'' \<notin> classes (nodes (snd (validateAll d)) eg)
       \<and> getAttribute (snd (validateAll d)) mi ''aria-invalid'' = None
       \<and> textContent (nodes (snd (validateAll d)) me) = []
       \<and> ''form-group--error'' \<notin> classes (nodes (snd (validateAll d)) mg)
       \<and> re_test email_re (lit ''a@b.c'')
       \<and> count_list (lit ''a@b.c'') 64 = 1
       \<and> \<not> list_ex is_space (lit ''a@b.c'')"
proof -
  have dist: "ni \<noteq> ei \<and> ni \<noteq> mi \<and> ei \<noteq> mi \<and> ne \<noteq> ee \<and> ne \<noteq> me \<and> ee \<noteq> me
       \<and> ng \<noteq> eg \<and> ng \<noteq> mg \<and> eg \<noteq> mg"
    using assms(1-3) by (rule fields_distinct)
  have pat: "re_test email_re (lit ''a@b.c'') \<and> count_list (lit ''a@b.c'') 64 = 1
       \<and> \<not> list_ex is_space (lit ''a@b.c'')"
    by (simp add: lit_def email_re_def is_space_def)
  show ?thesis
    using dist pat
    by (simp add: validateAll_present [OF assms(1-3)] assms(4-6) validate_name_empty
        validate_email_abc validate_message_long getAttribute_def mark_field_attrs
        mark_field_text mark_field_classes truthy_def)
qed

theorem C1_empty_name_only_error_witness:
  "field_present name_config (contact_example [] (lit ''a@b.c'') (lit ''this is long enough'')) 2 3 1
   \<and> \<not> fst (validateAll (contact_example [] (lit ''a@b.c'') (lit ''this is long enough'')))
   \<and> getAttribute (snd (validateAll (contact_example [] (lit ''a@b.c'') (lit ''this is long enough''))))
        2 ''aria-invalid'' = Some (lit ''true'')
   \<and> textContent (nodes (snd (validateAll (contact_example [] (lit ''a@b.c'')
        (lit ''this is long enough'')))) 3) = lit ''Name is required.''
   \<and> getAttribute (snd (validateAll (contact_example [] (lit ''a@b.c'') (lit ''this is long enough''))))
        5 ''aria-invalid'' = None
   \<and> getAttribute (snd (validateAll (contact_example [] (lit ''a@b.c'') (lit ''this is long enough''))))
        8 ''aria-invalid'' = None"
proof -
  let ?d = "contact_example [] (lit ''a@b.c'') (lit ''this is long enough'')"
  have v: "el_value (nodes ?d 2) = []" "el_value (nodes ?d 5) = lit ''a@b.c''"
    "el_value (nodes ?d 8) = lit ''this is long enough''"
    by (simp_all add: contact_example_def page_of_def elem_def)
  show ?thesis
    using C1_empty_name_only_error [OF ex_fields v] ex_fields(1) by simp
qed


subsection \<open>Fields that are absent\<close>

lemma validate_truthy:
  "truthy (validate_name v) \<longleftrightarrow> validate_name v \<noteq> None"
  "truthy (validate_email v) \<longleftrightarrow> validate_email v \<noteq> None"
  "truthy (validate_message v) \<longleftrightarrow> validate_message v \<noteq> None"
  by (simp_all add: truthy_def validate_name_def validate_email_def validate_message_def)

lemma validators_truthy: "truthy (validate (validators f) v) \<longleftrightarrow> validate (validators f) v \<noteq> None"
  by (cases f) (simp_all add: validate_truthy)

lemma validators_by_id:
  "\<exists>a b c. el (validators f) = qs (ById a) None \<and> errorEl (validators f) = qs (ById b) None
     \<and> groupEl (validators f) = qs (ById c) None"
  by (cases f; simp; blast)

lemma mark_field_present:
  assumes "childless d e"
  shows "field_present (validators f) (mark_field i e g err d) i' e' g'
         = field_present (validators f) d i' e' g'"
proof -
  obtain a b c where "el (validators f) = qs (ById a) None"
    "errorEl (validators f) = qs (ById b) None" "groupEl (validators f) = qs (ById c) None"
    using validators_by_id by blast
  then show ?thesis
    using assms by (simp add: field_present_def mark_field_qs_id mark_field_childless)
qed

lemma mark_field_el:
  assumes "childless d e"
  shows "el (validators f) (mark_field i e g err d) = el (validators f) d"
proof -
  obtain a where "el (validators f) = qs (ById a) None"
    using validators_by_id by blast
  then show ?thesis
    using assms by (simp add: mark_field_qs_id)
qed

lemma validateField_absent: "el c d = None \<Longrightarrow> validateField c d = (None, d)"
  by (simp add: validateField_def)


lemma same_outline_refl: "same_outline d d"
  by (simp add: same_outline_def)

lemma same_outline_trans: "same_outline a b \<Longrightarrow> same_outline b c \<Longrightarrow> same_outline a c"
  by (simp add: same_outline_def)

lemma mark_field_outline: "childless d e \<Longrightarrow> same_outline d (mark_field i e g err d)"
  by (simp add: same_outline_def mark_field_order mark_field_attrs)

lemma same_outline_qs_id: "same_outline d d1 \<Longrightarrow> qs (ById x) r d1 = qs (ById x) r d"
  by (cases r) (simp_all add: same_outline_def qs_def in_scope_def)

lemma same_outline_childless: "same_outline d d1 \<Longrightarrow> childless d1 n = childless d n"
  by (simp add: same_outline_def childless_def)

lemma same_outline_field:
  assumes "same_outline d d1"
  shows "field_usable f d1 = field_usable f d" and "field_valid f d1 = field_valid f d"
    and "el (validators f) d1 = el (validators f) d"
proof -
  obtain a b c where sel: "el (validators f) = qs (ById a) None"
    "errorEl (validators f) = qs (ById b) None" "groupEl (validators f) = qs (ById c) None"
    using validators_by_id by blast
  have v: "\<And>m. el_value (nodes d1 m) = el_value (nodes d m)"
    using assms by (simp add: same_outline_def)
  show "field_usable f d1 = field_usable f d"
    by (simp add: field_usable_def sel same_outline_qs_id [OF assms]
        same_outline_childless [OF assms] split: option.splits)
  show "field_valid f d1 = field_valid f d"
    by (simp add: field_valid_def sel same_outline_qs_id [OF assms] v split: option.splits)
  show "el (validators f) d1 = el (validators f) d"
    by (simp add: sel same_outline_qs_id [OF assms])
qed

lemma validateField_usable:
  assumes "field_usable f d"
  shows "same_outline d (snd (validateField (validators f) d))
       \<and> (fst (validateField (validators f) d) = None) = field_valid f d"
proof (cases "el (validators f) d")
  case None
  then show ?thesis
    by (simp add: validateField_absent same_outline_refl field_valid_def)
next
  case (Some i)
  with assms obtain e g where p: "errorEl (validators f) d = Some e"
    "groupEl (validators f) d = Some g" "childless d e"
    by (auto simp: field_usable_def split: option.splits)
  show ?thesis
    using Some p
    by (simp add: validateField_present [where i=i and e=e and g=g] mark_field_outline
        field_valid_def)
qed

lemma validateAll_usable:
  assumes "\<forall>f. field_usable f d"
  shows "fst (validateAll d) = (\<forall>f. field_valid f d) \<and> same_outline d (snd (validateAll d))"
proof -
  obtain r1 d1 where s1: "validateField (validators Name) d = (r1, d1)" by fastforce
  obtain r2 d2 where s2: "validateField (validators Email) d1 = (r2, d2)" by fastforce
  obtain r3 d3 where s3: "validateField (validators Message) d2 = (r3, d3)" by fastforce
  have o1: "same_outline d d1" and v1: "(r1 = None) = field_valid Name d"
    using validateField_usable [of Name d] assms s1 by simp_all
  have "field_usable Email d1" using assms same_outline_field(1) [OF o1] by simp
  then have o2: "same_outline d1 d2" and v2: "(r2 = None) = field_valid Email d1"
    using validateField_usable [of Email d1] s2 by simp_all
  have o02: "same_outline d d2" using o1 o2 by (rule same_outline_trans)
  have "field_usable Message d2" using assms same_outline_field(1) [OF o02] by simp
  then have o3: "same_outline d2 d3" and v3: "(r3 = None) = field_valid Message d2"
    using validateField_usable [of Message d2] s3 by simp_all
  have all: "(\<forall>f. field_valid f d) = (field_valid Name d \<and> field_valid Email d \<and> field_valid Message d)"
    by (metis field.exhaust)
  have "validateAll d = (r1 = None \<and> r2 = None \<and> r3 = None, d3)"
    using s1 s2 s3 by (simp add: validateAll_def validators_values_def)
  then show ?thesis
    using v1 v2 v3 same_outline_field(2) [OF o1] same_outline_field(2) [OF o02]
      same_outline_trans [OF o02 o3] all
    by simp
qed

text \<open>
  Claim C10. When the input element of a field is missing, \<open>validateField\<close> returns null
  and leaves the page as it is. On a page where every field is either without its input
  or complete, the verdict of \<open>validateAll\<close> is the conjunction of the rules of the fields
  that are there, a missing field counting as valid; and a form none of whose inputs is
  there is reported valid, nothing is marked, and the submit listener goes on to the
  loading state and the send.
\<close>

theorem C10_missing_field_counts_as_valid:
  assumes "\<forall>f. field_usable f d"
  shows "(\<forall>c. el c d = None \<longrightarrow> validateField c d = (None, d))
       \<and> fst (validateAll d) = (\<forall>f. field_valid f d)
       \<and> (\<forall>f. el (validators f) d = None \<longrightarrow> field_valid f d)
       \<and> ((\<forall>f. el (validators f) d = None) \<longrightarrow>
            validateAll d = (True, d)
            \<and> submit_listener refs e d =
                (preventDefault e, simulateSend (setSubmitLoading refs True d), AwaitingSend))"
proof -
  have a: "\<forall>c. el c d = None \<longrightarrow> validateField c d = (None, d)"
    by (simp add: validateField_absent)
  have b: "fst (validateAll d) = (\<forall>f. field_valid f d)"
    using validateAll_usable [OF assms] by simp
  have c: "\<forall>f. el (validators f) d = None \<longrightarrow> field_valid f d"
    by (simp add: field_valid_def)
  have d: "validateAll d = (True, d)" if "\<forall>f. el (validators f) d = None"
  proof -
    have "el name_config d = None" "el email_config d = None" "el message_config d = None"
      using that [rule_format, of Name] that [rule_format, of Email]
        that [rule_format, of Message] by simp_all
    then show ?thesis
      by (simp add: validateAll_def validators_values_def validateField_absent)
  qed
  have e: "submit_listener refs e d =
             (preventDefault e, simulateSend (setSubmitLoading refs True d), AwaitingSend)"
    if "\<forall>f. el (validators f) d = None"
    using d [OF that] by (simp add: submit_listener_def)
  show ?thesis using a b c d e by blast
qed

lemma no_fields_absent: "el (validators f) contact_no_fields = None"
  by (cases f) (simp_all add: qs_def in_scope_def contact_no_fields_def page_of_def elem_def lit_eq_iff)

theorem C10_missing_field_counts_as_valid_witness:
  "validateField name_config contact_no_fields = (None, contact_no_fields)
   \<and> validateAll contact_no_fields = (True, contact_no_fields)
   \<and> snd (snd (submit_listener contact_refs \<lparr>defaultPrevented = False\<rparr> contact_no_fields))
       = AwaitingSend"
proof -
  have u: "\<forall>f. field_usable f contact_no_fields"
    by (simp add: field_usable_def no_fields_absent)
  have n: "el name_config contact_no_fields = None"
    using no_fields_absent [of Name] by simp
  show ?thesis
    using C10_missing_field_counts_as_valid [OF u, of contact_refs "\<lparr>defaultPrevented = False\<rparr>"]
      n no_fields_absent
    by simp
qed


subsection \<open>Live validation\<close>

lemma clearError_present:
  "field_present c d i e g \<Longrightarrow> clearError c d = mark_field i e g None d"
  by (simp add: field_present_def clearError_def mark_field_def truthy_def)

lemma showError_present:
  "field_present c d i e g \<Longrightarrow> msg \<noteq> [] \<Longrightarrow> showError c msg d = mark_field i e g (Some msg) d"
  by (simp add: field_present_def showError_def mark_field_def truthy_def)

lemma blur_listener_present:
  assumes "field_present (validators f) d i e g"
  shows "blur_listener (validators f) d
           = mark_field i e g (validate (validators f) (el_value (nodes d i))) d"
  using assms
  by (simp add: blur_listener_def field_present_def validateField_present [where i=i and e=e and g=g])

lemma input_listener_rule_free:
  "input_listener (c\<lparr>validate := rule\<rparr>) i d = input_listener c i d"
  by (simp add: input_listener_def clearError_def)

text \<open>
  Claim C5. For a field whose elements are present and whose input is marked invalid,
  an input event clears the marker on the input, the error text and the marker on the
  group, whatever the new value is, and the result does not depend on the field's rule
  (the listener is the same for every rule put in its place). When the input is not
  marked invalid the input event changes nothing. The rule is applied by the blur
  listener: after the input event, a blur marks the field again exactly when the rule
  rejects the value.
\<close>

theorem C5_input_clears_error_without_validation:
  assumes "field_present (validators f) d i e g"
  shows "(getAttribute d i ''aria-invalid'' = Some (lit ''true'') \<longrightarrow>
            getAttribute (input_listener (validators f) i d) i ''aria-invalid'' = None
          \<and> textContent (nodes (input_listener (validators f) i d) e) = []
          \<and> ''form-group--error'' \<notin> classes (nodes (input_listener (validators f) i d) g))
       \<and> (\<forall>rule. input_listener ((validators f)\<lparr>validate := rule\<rparr>) i d
                    = input_listener (validators f) i d)
       \<and> (getAttribute d i ''aria-invalid'' \<noteq> Some (lit ''true'') \<longrightarrow>
            input_listener (validators f) i d = d)
       \<and> getAttribute (blur_listener (validators f) (input_listener (validators f) i d)) i
            ''aria-invalid''
          = (if validate (validators f) (el_value (nodes d i)) = None then None
             else Some (lit ''true''))"
proof -
  let ?c = "validators f"
  have childless: "childless d e" using assms by (simp add: field_present_def)
  have cleared: "getAttribute (mark_field i e g None d) i ''aria-invalid'' = None
      \<and> textContent (nodes (mark_field i e g None d) e) = []
      \<and> ''form-group--error'' \<notin> classes (nodes (mark_field i e g None d) g)"
    by (simp add: getAttribute_def mark_field_attrs mark_field_text mark_field_classes truthy_def)
  have 1: "getAttribute d i ''aria-invalid'' = Some (lit ''true'') \<longrightarrow>
            getAttribute (input_listener ?c i d) i ''aria-invalid'' = None
          \<and> textContent (nodes (input_listener ?c i d) e) = []
          \<and> ''form-group--error'' \<notin> classes (nodes (input_listener ?c i d) g)"
    using cleared by (simp add: input_listener_def clearError_present [OF assms])
  have 2: "\<forall>rule. input_listener (?c\<lparr>validate := rule\<rparr>) i d = input_listener ?c i d"
    by (simp add: input_listener_rule_free)
  have 3: "getAttribute d i ''aria-invalid'' \<noteq> Some (lit ''true'') \<longrightarrow> input_listener ?c i d = d"
    by (simp add: input_listener_def)
  have p: "field_present ?c (input_listener ?c i d) i e g"
    and v: "el_value (nodes (input_listener ?c i d) i) = el_value (nodes d i)"
    using assms childless
    by (simp_all add: input_listener_def clearError_present [OF assms] mark_field_present)
  have 4: "getAttribute (blur_listener ?c (input_listener ?c i d)) i ''aria-invalid''
          = (if validate ?c (el_value (nodes d i)) = None then None else Some (lit ''true''))"
    by (simp add: blur_listener_present [OF p] v getAttribute_def mark_field_attrs
        validators_truthy)
  show ?thesis using 1 2 3 4 by blast
qed

lemma ex_values:
  "el_value (nodes (contact_example n e m) 2) = n"
  "el_value (nodes (contact_example n e m) 5) = e"
  "el_value (nodes (contact_example n e m) 8) = m"
  by (simp_all add: contact_example_def page_of_def elem_def)

lemma ex_validated_fields:
  "field_present (validators Name) (snd (validateAll (contact_example n e m))) 2 3 1"
  "field_present (validators Email) (snd (validateAll (contact_example n e m))) 5 6 4"
  "field_present (validators Message) (snd (validateAll (contact_example n e m))) 8 9 7"
  "el_value (nodes (snd (validateAll (contact_example n e m))) k)
     = el_value (nodes (contact_example n e m) k)"
proof -
  let ?p = "contact_example n e m"
  have "\<forall>f. field_usable f ?p"
  proof
    fix f show "field_usable f ?p"
      using ex_fields [of n e m] by (cases f) (simp_all add: field_usable_def field_present_def)
  qed
  then have o: "same_outline ?p (snd (validateAll ?p))"
    using validateAll_usable [of ?p] by simp
  show "field_present (validators Name) (snd (validateAll ?p)) 2 3 1"
    "field_present (validators Email) (snd (validateAll ?p)) 5 6 4"
    "field_present (validators Message) (snd (validateAll ?p)) 8 9 7"
    using ex_fields [of n e m]
    by (simp_all add: field_present_def same_outline_qs_id [OF o] same_outline_childless [OF o])
  show "el_value (nodes (snd (validateAll ?p)) k) = el_value (nodes ?p k)"
    using o by (simp add: same_outline_def)
qed

lemma ex_validated_marks:
  "getAttribute (snd (validateAll (contact_example n e m))) 2 ''aria-invalid''
     = (if validate_name n = None then None else Some (lit ''true''))"
  "getAttribute (snd (validateAll (contact_example n e m))) 5 ''aria-invalid''
     = (if validate_email e = None then None else Some (lit ''true''))"
  "getAttribute (snd (validateAll (contact_example n e m))) 8 ''aria-invalid''
     = (if validate_message m = None then None else Some (lit ''true''))"
  by (simp_all add: validateAll_present [OF ex_fields] ex_values getAttribute_def
      mark_field_attrs validate_truthy)

theorem C5_input_clears_error_without_validation_witness:
  "getAttribute (snd (validateAll (contact_example [] (lit ''a@b.c'') (lit ''this is long enough''))))
      2 ''aria-invalid'' = Some (lit ''true'')
   \<and> getAttribute
        (input_listener name_config 2
           (snd (validateAll (contact_example [] (lit ''a@b.c'') (lit ''this is long enough'')))))
        2 ''aria-invalid'' = None
   \<and> getAttribute
        (blur_listener name_config (input_listener name_config 2
           (snd (validateAll (contact_example [] (lit ''a@b.c'') (lit ''this is long enough''))))))
        2 ''aria-invalid'' = Some (lit ''true'')
   \<and> input_listener email_config 5
        (snd (validateAll (contact_example [] (lit ''a@b.c'') (lit ''this is long enough''))))
      = snd (validateAll (contact_example [] (lit ''a@b.c'') (lit ''this is long enough'')))"
  using C5_input_clears_error_without_validation [OF ex_validated_fields(1),
      of "[]" "lit ''a@b.c''" "lit ''this is long enough''"]
    C5_input_clears_error_without_validation [OF ex_validated_fields(2),
      of "[]" "lit ''a@b.c''" "lit ''this is long enough''"]
  by (simp add: ex_validated_marks ex_validated_fields(4) ex_values validate_name_empty
      validate_email_abc)


subsection \<open>Focus\<close>

lemma focus_simps [simp]:
  "nodes (focus n d) = nodes d"
  "doc_order (focus n d) = doc_order d"
  "activeElement (focus n d) = (if focusable d n then Some n else activeElement d)"
  "timers (focus n d) = timers d"
  "fresh (focus n d) = fresh d"
  "listeners (focus n d) = listeners d"
  by (simp_all add: focus_def)

lemma not_displayed_frame:
  "attrs (nodes d1 a) ''hidden'' = attrs (nodes d a) ''hidden''
     \<Longrightarrow> display (nodes d1 a) = display (nodes d a)
     \<Longrightarrow> not_displayed d1 a = not_displayed d a"
  by (simp add: not_displayed_def getAttribute_def)

lemma concealed_frame:
  assumes "ancestors (nodes d1 k) = ancestors (nodes d k)"
    and "\<And>a. not_displayed d1 a = not_displayed d a"
  shows "concealed d1 k = concealed d k"
  using assms by (simp add: concealed_def list_ex_iff)

lemma focus_target_frame:
  assumes "tag (nodes d1 n) = tag (nodes d n)"
    and "attrs (nodes d1 n) ''type'' = attrs (nodes d n) ''type''"
    and "attrs (nodes d1 n) ''disabled'' = attrs (nodes d n) ''disabled''"
    and "attrs (nodes d1 n) ''href'' = attrs (nodes d n) ''href''"
    and "attrs (nodes d1 n) ''tabindex'' = attrs (nodes d n) ''tabindex''"
  shows "focus_target d1 n = focus_target d n"
  using assms by (simp add: focus_target_def form_control_def getAttribute_def)

lemma validated_simps:
  assumes "childless d ne" "childless d ee" "childless d me"
  shows "doc_order (validated d ni ne ng ei ee eg mi me mg) = doc_order d"
    and "childless (validated d ni ne ng ei ee eg mi me mg) k = childless d k"
  using assms by (simp_all add: validated_def mark_field_order mark_field_childless)

lemma validated_other [simp]:
  "el_value (nodes (validated d ni ne ng ei ee eg mi me mg) k) = el_value (nodes d k)"
  "ancestors (nodes (validated d ni ne ng ei ee eg mi me mg) k) = ancestors (nodes d k)"
  "tag (nodes (validated d ni ne ng ei ee eg mi me mg) k) = tag (nodes d k)"
  "display (nodes (validated d ni ne ng ei ee eg mi me mg) k) = display (nodes d k)"
  "activeElement (validated d ni ne ng ei ee eg mi me mg) = activeElement d"
  "timers (validated d ni ne ng ei ee eg mi me mg) = timers d"
  "fresh (validated d ni ne ng ei ee eg mi me mg) = fresh d"
  "listeners (validated d ni ne ng ei ee eg mi me mg) = listeners d"
  by (simp_all add: validated_def)

lemma validated_attrs_other:
  "key \<noteq> ''aria-invalid'' \<Longrightarrow>
     attrs (nodes (validated d ni ne ng ei ee eg mi me mg) k) key = attrs (nodes d k) key"
  by (simp add: validated_def mark_field_attrs)

lemma validated_class_other:
  "c \<noteq> ''form-group--error'' \<Longrightarrow>
     (c \<in> classes (nodes (validated d ni ne ng ei ee eg mi me mg) k)) = (c \<in> classes (nodes d k))"
  by (simp add: validated_def mark_field_classes)

lemma validated_not_displayed [simp]:
  "not_displayed (validated d ni ne ng ei ee eg mi me mg) a = not_displayed d a"
  by (rule not_displayed_frame) (simp_all add: validated_attrs_other)

lemma validated_concealed [simp]:
  "concealed (validated d ni ne ng ei ee eg mi me mg) k = concealed d k"
  by (rule concealed_frame) simp_all

lemma validated_focus_target [simp]:
  "focus_target (validated d ni ne ng ei ee eg mi me mg) k = focus_target d k"
  by (rule focus_target_frame) (simp_all add: validated_attrs_other)

lemma validated_focusable:
  assumes "childless d ne" "childless d ee" "childless d me"
  shows "focusable (validated d ni ne ng ei ee eg mi me mg) k = focusable d k"
  by (simp add: focusable_def validated_simps [OF assms])


subsection \<open>Submission with an invalid field\<close>

lemma find_first_before:
  "find P xs = Some f \<Longrightarrow> g \<in> set xs \<Longrightarrow> P g \<Longrightarrow> g \<noteq> f
     \<Longrightarrow> f \<in> set (takeWhile (\<lambda>k. k \<noteq> g) xs)"
  by (induction xs) (auto split: if_splits)

lemma find_exists: "g \<in> set xs \<Longrightarrow> P g \<Longrightarrow> \<exists>f. find P xs = Some f"
  by (induction xs) auto

lemma find_Some_props: "find P xs = Some f \<Longrightarrow> P f \<and> f \<in> set xs"
  by (induction xs) (auto split: if_splits)

lemma before_antisym:
  "a \<in> set (takeWhile (\<lambda>k. k \<noteq> b) xs) \<Longrightarrow> b \<in> set (takeWhile (\<lambda>k. k \<noteq> a) xs) \<Longrightarrow> False"
  by (induction xs) (auto split: if_splits)

lemma invalid_inputs_present:
  assumes n: "field_present name_config d ni ne ng"
    and e: "field_present email_config d ei ee eg"
    and m: "field_present message_config d mi me mg"
  shows "invalid_inputs d =
           {k. (k = ni \<and> validate_name (el_value (nodes d ni)) \<noteq> None)
             \<or> (k = ei \<and> validate_email (el_value (nodes d ei)) \<noteq> None)
             \<or> (k = mi \<and> validate_message (el_value (nodes d mi)) \<noteq> None)}"
proof -
  have sel: "el (validators Name) d = Some ni" "el (validators Email) d = Some ei"
    "el (validators Message) d = Some mi"
    using n e m by (simp_all add: field_present_def)
  have ex: "\<And>Q. (\<exists>f. Q f) = (Q Name \<or> Q Email \<or> Q Message)"
    by (metis field.exhaust)
  show ?thesis
    unfolding invalid_inputs_def ex using sel by auto
qed


lemma mark_field_node_other:
  "k \<noteq> i \<Longrightarrow> k \<noteq> e \<Longrightarrow> k \<noteq> g \<Longrightarrow> nodes (mark_field i e g err d) k = nodes d k"
  by (simp add: mark_field_def dom_ops)

lemma button_not_a_field_element:
  assumes "field_present (validators f) d i e g"
    and "qs (ById (lit ''submit-btn'')) r d = Some b"
  shows "b \<noteq> i \<and> b \<noteq> e \<and> b \<noteq> g"
proof -
  have p: "el (validators f) d = Some i" "errorEl (validators f) d = Some e"
    "groupEl (validators f) d = Some g"
    using assms(1) by (simp_all add: field_present_def)
  show ?thesis
  proof (cases f)
    case Name
    with p show ?thesis
      using qs_id_neq [OF assms(2), of "lit ''field-name''" None i]
        qs_id_neq [OF assms(2), of "lit ''error-name''" None e]
        qs_id_neq [OF assms(2), of "lit ''group-name''" None g]
      by (simp add: lit_eq_iff)
  next
    case Email
    with p show ?thesis
      using qs_id_neq [OF assms(2), of "lit ''field-email''" None i]
        qs_id_neq [OF assms(2), of "lit ''error-email''" None e]
        qs_id_neq [OF assms(2), of "lit ''group-email''" None g]
      by (simp add: lit_eq_iff)
  next
    case Message
    with p show ?thesis
      using qs_id_neq [OF assms(2), of "lit ''field-message''" None i]
        qs_id_neq [OF assms(2), of "lit ''error-message''" None e]
        qs_id_neq [OF assms(2), of "lit ''group-message''" None g]
      by (simp add: lit_eq_iff)
  qed
qed

lemma first_invalid_query:
  assumes n: "field_present name_config d ni ne ng"
    and e: "field_present email_config d ei ee eg"
    and m: "field_present message_config d mi me mg"
    and inside: "fm \<in> set (ancestors (nodes d ni))" "fm \<in> set (ancestors (nodes d ei))"
      "fm \<in> set (ancestors (nodes d mi))"
    and others: "\<forall>k \<in> set (doc_order d).
        k \<noteq> ni \<and> k \<noteq> ei \<and> k \<noteq> mi \<and> fm \<in> set (ancestors (nodes d k))
          \<longrightarrow> getAttribute d k ''aria-invalid'' \<noteq> Some (lit ''true'')"
  shows "qs (AttrEq ''aria-invalid'' (lit ''true'')) (Some fm)
           (validated d ni ne ng ei ee eg mi me mg)
         = find (\<lambda>k. k \<in> invalid_inputs d) (doc_order d)"
proof -
  let ?q = "validated d ni ne ng ei ee eg mi me mg"
  have dist: "ni \<noteq> ei \<and> ni \<noteq> mi \<and> ei \<noteq> mi"
    using fields_distinct [OF n e m] by simp
  have leaf: "childless d ne" "childless d ee" "childless d me"
    using n e m by (simp_all add: field_present_def)
  have ord: "doc_order ?q = doc_order d"
    using leaf by (simp add: validated_def mark_field_order mark_field_childless)
  have bad: "invalid_inputs d =
           {k. (k = ni \<and> validate_name (el_value (nodes d ni)) \<noteq> None)
             \<or> (k = ei \<and> validate_email (el_value (nodes d ei)) \<noteq> None)
             \<or> (k = mi \<and> validate_message (el_value (nodes d mi)) \<noteq> None)}"
    by (rule invalid_inputs_present [OF n e m])
  have "(in_scope ?q (Some fm) k \<and> matches (nodes ?q k) (AttrEq ''aria-invalid'' (lit ''true'')))
          = (k \<in> invalid_inputs d)" if "k \<in> set (doc_order d)" for k
    using dist inside others [rule_format, of k] that
    by (auto simp: bad in_scope_def validated_def mark_field_attrs validate_truthy
        getAttribute_def)
  then show ?thesis
    unfolding qs_def ord by (intro find_cong refl) simp
qed


lemma validateAll_validated:
  assumes "field_present name_config d ni ne ng" "field_present email_config d ei ee eg"
    "field_present message_config d mi me mg"
  shows "validateAll d = (invalid_inputs d = {}, validated d ni ne ng ei ee eg mi me mg)"
  by (auto simp: validateAll_present [OF assms] validated_def invalid_inputs_present [OF assms])

text \<open>
  Claim C2. On a page whose three fields are present inside the form, where no other
  element of the form carries \<^verbatim>\<open>aria-invalid="true"\<close>, a submission with some field
  invalid cancels the default action, marks exactly the invalid fields, calls \<^verbatim>\<open>focus\<close> on
  the invalid input that comes first in document order (the name input when it is
  invalid and precedes the two others), and returns: no timer is set and the submit
  control is left as it was. The call moves the focus to that input when it is focusable,
  as an \<^verbatim>\<open>input\<close> or \<^verbatim>\<open>textarea\<close> is unless it is disabled or not shown; otherwise the
  focus stays where it was.
\<close>

theorem C2_invalid_submission_blocked:
  assumes n: "field_present name_config d ni ne ng"
    and e: "field_present email_config d ei ee eg"
    and m: "field_present message_config d mi me mg"
    and inside: "form refs \<in> set (ancestors (nodes d ni))"
      "form refs \<in> set (ancestors (nodes d ei))" "form refs \<in> set (ancestors (nodes d mi))"
    and others: "\<forall>k \<in> set (doc_order d).
        k \<noteq> ni \<and> k \<noteq> ei \<and> k \<noteq> mi \<and> form refs \<in> set (ancestors (nodes d k))
          \<longrightarrow> getAttribute d k ''aria-invalid'' \<noteq> Some (lit ''true'')"
    and btn: "qs (ById (lit ''submit-btn'')) (Some (form refs)) d = Some (submitBtn refs)"
    and invalid: "invalid_inputs d \<noteq> {}"
  shows "defaultPrevented (fst (submit_listener refs ev d))
       \<and> snd (snd (submit_listener refs ev d)) = Returned
       \<and> timers (fst (snd (submit_listener refs ev d))) = timers d
       \<and> nodes (fst (snd (submit_listener refs ev d))) (submitBtn refs) = nodes d (submitBtn refs)
       \<and> (\<forall>k \<in> {ni, ei, mi}.
             (getAttribute (fst (snd (submit_listener refs ev d))) k ''aria-invalid''
                = Some (lit ''true'')) = (k \<in> invalid_inputs d))
       \<and> (\<exists>f \<in> invalid_inputs d.
             activeElement (fst (snd (submit_listener refs ev d)))
               = (if focusable d f then Some f else activeElement d)
             \<and> (\<forall>g \<in> invalid_inputs d. g \<noteq> f \<longrightarrow> comes_before d f g))
       \<and> (ni \<in> invalid_inputs d \<and> comes_before d ni ei \<and> comes_before d ni mi
            \<longrightarrow> activeElement (fst (snd (submit_listener refs ev d)))
                  = (if focusable d ni then Some ni else activeElement d))"
proof -
  let ?q = "validated d ni ne ng ei ee eg mi me mg"
  have dist: "ni \<noteq> ei \<and> ni \<noteq> mi \<and> ei \<noteq> mi"
    using fields_distinct [OF n e m] by simp
  have bad: "invalid_inputs d =
           {k. (k = ni \<and> validate_name (el_value (nodes d ni)) \<noteq> None)
             \<or> (k = ei \<and> validate_email (el_value (nodes d ei)) \<noteq> None)
             \<or> (k = mi \<and> validate_message (el_value (nodes d mi)) \<noteq> None)}"
    by (rule invalid_inputs_present [OF n e m])
  have in_doc: "ni \<in> set (doc_order d)" "ei \<in> set (doc_order d)" "mi \<in> set (doc_order d)"
    using n e m by (auto simp: field_present_def dest: qs_ById_Some)
  then have sub: "invalid_inputs d \<subseteq> set (doc_order d)"
    by (auto simp: bad)
  obtain g0 where g0: "g0 \<in> invalid_inputs d" using invalid by blast
  with sub have "g0 \<in> set (doc_order d)" by blast
  with g0 obtain f where f: "find (\<lambda>k. k \<in> invalid_inputs d) (doc_order d) = Some f"
    using find_exists [of g0 "doc_order d" "\<lambda>k. k \<in> invalid_inputs d"] by blast
  have fbad: "f \<in> invalid_inputs d" using find_Some_props [OF f] by simp
  have first: "\<forall>g \<in> invalid_inputs d. g \<noteq> f \<longrightarrow> comes_before d f g"
    using find_first_before [OF f] sub by (auto simp: comes_before_def)
  have run: "submit_listener refs ev d = (preventDefault ev, focus f ?q, Returned)"
    using invalid f
    by (simp add: submit_listener_def validateAll_validated [OF n e m]
        first_invalid_query [OF n e m inside others])
  have b: "submitBtn refs \<noteq> ni \<and> submitBtn refs \<noteq> ne \<and> submitBtn refs \<noteq> ng"
    "submitBtn refs \<noteq> ei \<and> submitBtn refs \<noteq> ee \<and> submitBtn refs \<noteq> eg"
    "submitBtn refs \<noteq> mi \<and> submitBtn refs \<noteq> me \<and> submitBtn refs \<noteq> mg"
    using button_not_a_field_element [OF _ btn, of Name ni ne ng]
      button_not_a_field_element [OF _ btn, of Email ei ee eg]
      button_not_a_field_element [OF _ btn, of Message mi me mg] n e m
    by simp_all
  have 1: "defaultPrevented (fst (submit_listener refs ev d))"
    by (simp add: run preventDefault_def)
  have 2: "snd (snd (submit_listener refs ev d)) = Returned"
    by (simp add: run)
  have leaf: "childless d ne" "childless d ee" "childless d me"
    using n e m by (simp_all add: field_present_def)
  have act: "activeElement (focus f ?q) = (if focusable d f then Some f else activeElement d)"
    by (simp add: validated_focusable [OF leaf])
  have 3: "timers (fst (snd (submit_listener refs ev d))) = timers d"
    by (simp add: run)
  have 4: "nodes (fst (snd (submit_listener refs ev d))) (submitBtn refs) = nodes d (submitBtn refs)"
    using b by (simp add: run validated_def mark_field_node_other)
  have 5: "\<forall>k \<in> {ni, ei, mi}.
             (getAttribute (fst (snd (submit_listener refs ev d))) k ''aria-invalid''
                = Some (lit ''true'')) = (k \<in> invalid_inputs d)"
    using dist
    by (auto simp: run validated_def getAttribute_def mark_field_attrs bad
        validate_truthy)
  have 6: "\<exists>f \<in> invalid_inputs d.
             activeElement (fst (snd (submit_listener refs ev d)))
               = (if focusable d f then Some f else activeElement d)
             \<and> (\<forall>g \<in> invalid_inputs d. g \<noteq> f \<longrightarrow> comes_before d f g)"
    using fbad first act unfolding run by (intro bexI [of _ f]) simp_all
  have 7: "activeElement (fst (snd (submit_listener refs ev d)))
             = (if focusable d ni then Some ni else activeElement d)"
    if "ni \<in> invalid_inputs d" "comes_before d ni ei" "comes_before d ni mi"
  proof -
    have "f = ni"
    proof (rule ccontr)
      assume neq: "f \<noteq> ni"
      then have fb: "comes_before d f ni" using first that(1) by auto
      from fbad neq have "f = ei \<or> f = mi" by (auto simp: bad)
      then show False
        using fb that(2,3) before_antisym [of f ni "doc_order d"]
        by (auto simp: comes_before_def)
    qed
    then show ?thesis using act by (simp add: run)
  qed
  show ?thesis using 1 2 3 4 5 6 7 by blast
qed


lemma ex_inside_form:
  "0 \<in> set (ancestors (nodes (contact_example n e m) 2))"
  "0 \<in> set (ancestors (nodes (contact_example n e m) 5))"
  "0 \<in> set (ancestors (nodes (contact_example n e m) 8))"
  by (simp_all add: contact_example_def page_of_def elem_def)

lemma ex_no_stale_marks:
  "\<forall>k \<in> set (doc_order (contact_example n e m)).
     k \<noteq> 2 \<and> k \<noteq> 5 \<and> k \<noteq> 8 \<and> 0 \<in> set (ancestors (nodes (contact_example n e m) k))
       \<longrightarrow> getAttribute (contact_example n e m) k ''aria-invalid'' \<noteq> Some (lit ''true'')"
  by (simp add: contact_example_def page_of_def elem_def getAttribute_def)

lemma ex_button:
  "qs (ById (lit ''submit-btn'')) (Some 0) (contact_example n e m) = Some 11"
  by (simp add: qs_def in_scope_def contact_example_def page_of_def elem_def lit_eq_iff)

lemma ex_order_fields:
  "comes_before (contact_example n e m) 2 5" "comes_before (contact_example n e m) 2 8"
  "comes_before (contact_example n e m) 5 8"
  by (simp_all add: comes_before_def ex_nodes)

lemma ex_focusable:
  "focusable (contact_example n e m) 2" "focusable (contact_example n e m) 5"
  "focusable (contact_example n e m) 8"
  by (simp_all add: focusable_def concealed_def not_displayed_def focus_target_def
      form_control_def getAttribute_def contact_example_def page_of_def elem_def)

lemma validate_rejects:
  "validate_email (lit ''not-an-email'') = Some (lit ''Please enter a valid email address.'')"
  "validate_message (lit ''short'') = Some (lit ''Message must be at least 10 characters.'')"
  by (simp_all add: validate_email_def validate_message_def trim_def lit_def is_space_def
      email_re_def)

lemma validate_name_Al: "validate_name (lit ''Al'') = None"
  by (simp add: validate_name_def trim_def lit_def is_space_def)

lemma sample_name_Al_is_valid:
  "invalid_inputs (contact_example (lit ''Al'') (lit ''not-an-email'') (lit ''short'')) = {5, 8}"
  by (auto simp: invalid_inputs_present [OF ex_fields] ex_values validate_name_Al validate_rejects)

theorem C2_invalid_submission_blocked_witness:
  "invalid_inputs (contact_example [] (lit ''not-an-email'') (lit ''short'')) = {2, 5, 8}
   \<and> defaultPrevented (fst (submit_listener contact_refs \<lparr>defaultPrevented = False\<rparr>
        (contact_example [] (lit ''not-an-email'') (lit ''short''))))
   \<and> snd (snd (submit_listener contact_refs \<lparr>defaultPrevented = False\<rparr>
        (contact_example [] (lit ''not-an-email'') (lit ''short'')))) = Returned
   \<and> timers (fst (snd (submit_listener contact_refs \<lparr>defaultPrevented = False\<rparr>
        (contact_example [] (lit ''not-an-email'') (lit ''short''))))) = []
   \<and> activeElement (fst (snd (submit_listener contact_refs \<lparr>defaultPrevented = False\<rparr>
        (contact_example [] (lit ''not-an-email'') (lit ''short''))))) = Some 2"
proof -
  let ?p = "contact_example [] (lit ''not-an-email'') (lit ''short'')"
  have bad: "invalid_inputs ?p = {2, 5, 8}"
    by (auto simp: invalid_inputs_present [OF ex_fields] ex_values validate_name_empty
        validate_rejects)
  have t: "timers ?p = []"
    by (simp add: contact_example_def page_of_def)
  show ?thesis
    using C2_invalid_submission_blocked [of ?p 2 3 1 5 6 4 8 9 7 contact_refs
        "\<lparr>defaultPrevented = False\<rparr>"]
      ex_fields [of "[]" "lit ''not-an-email''" "lit ''short''"]
      ex_inside_form [of "[]" "lit ''not-an-email''" "lit ''short''"]
      ex_no_stale_marks [of "[]" "lit ''not-an-email''" "lit ''short''"]
      ex_button [of "[]" "lit ''not-an-email''" "lit ''short''"]
      ex_order_fields [of "[]" "lit ''not-an-email''" "lit ''short''"]
      ex_focusable [of "[]" "lit ''not-an-email''" "lit ''short''"]
    by (simp add: bad t contact_refs_def)
qed


subsection \<open>Submission of a valid form\<close>

lemma setSubmitLoading_order:
  "childless d (submitBtn refs) \<Longrightarrow> doc_order (setSubmitLoading refs b d) = doc_order d"
  by (auto simp: setSubmitLoading_def set_disabled_def dom_ops childless_def filter_id_conv)

lemma setSubmitLoading_attrs:
  "attrs (nodes (setSubmitLoading refs b d) k) key =
     (if k = submitBtn refs \<and> key = ''data-loading'' then Some (String_bool b)
      else if k = submitBtn refs \<and> key = ''disabled'' then (if b then Some [] else None)
      else attrs (nodes d k) key)"
  by (auto simp: setSubmitLoading_def set_disabled_def dom_ops)

lemma setSubmitLoading_text:
  "textContent (nodes (setSubmitLoading refs b d) k) =
     (if k = submitBtn refs
      then (if b then lit ''Sending'' @ [8230] else lit ''Send Message'')
      else textContent (nodes d k))"
  by (auto simp: setSubmitLoading_def set_disabled_def dom_ops)

lemma setSubmitLoading_other [simp]:
  "el_value (nodes (setSubmitLoading refs b d) k) = el_value (nodes d k)"
  "ancestors (nodes (setSubmitLoading refs b d) k) = ancestors (nodes d k)"
  "classes (nodes (setSubmitLoading refs b d) k) = classes (nodes d k)"
  "tag (nodes (setSubmitLoading refs b d) k) = tag (nodes d k)"
  "display (nodes (setSubmitLoading refs b d) k) = display (nodes d k)"
  "activeElement (setSubmitLoading refs b d) = activeElement d"
  "timers (setSubmitLoading refs b d) = timers d"
  "fresh (setSubmitLoading refs b d) = fresh d"
  "listeners (setSubmitLoading refs b d) = listeners d"
  by (auto simp: setSubmitLoading_def set_disabled_def dom_ops)

lemma simulateSend_simps [simp]:
  "nodes (simulateSend d) = nodes d"
  "doc_order (simulateSend d) = doc_order d"
  "activeElement (simulateSend d) = activeElement d"
  "timers (simulateSend d) = timers d @ [(1000, ResolveSend)]"
  "fresh (simulateSend d) = fresh d"
  "listeners (simulateSend d) = listeners d"
  by (simp_all add: simulateSend_def setTimeout_def)

lemma set_hidden_attrs:
  "attrs (nodes (set_hidden n b d) k) key =
     (if k = n \<and> key = ''hidden'' then (if b then Some [] else None) else attrs (nodes d k) key)"
  by (auto simp: set_hidden_def dom_ops)

lemma set_hidden_other [simp]:
  "el_value (nodes (set_hidden n b d) k) = el_value (nodes d k)"
  "ancestors (nodes (set_hidden n b d) k) = ancestors (nodes d k)"
  "classes (nodes (set_hidden n b d) k) = classes (nodes d k)"
  "textContent (nodes (set_hidden n b d) k) = textContent (nodes d k)"
  "tag (nodes (set_hidden n b d) k) = tag (nodes d k)"
  "display (nodes (set_hidden n b d) k) = display (nodes d k)"
  "doc_order (set_hidden n b d) = doc_order d"
  "activeElement (set_hidden n b d) = activeElement d"
  "timers (set_hidden n b d) = timers d"
  "fresh (set_hidden n b d) = fresh d"
  by (auto simp: set_hidden_def dom_ops)

lemma hide_all_attrs:
  "attrs (nodes (foldl (\<lambda>d1 n. set_hidden n True d1) d ns) k) key =
     (if k \<in> set ns \<and> key = ''hidden'' then Some [] else attrs (nodes d k) key)"
  by (induction ns arbitrary: d) (auto simp: set_hidden_attrs)

lemma hide_all_other [simp]:
  "el_value (nodes (foldl (\<lambda>d1 n. set_hidden n True d1) d ns) k) = el_value (nodes d k)"
  "ancestors (nodes (foldl (\<lambda>d1 n. set_hidden n True d1) d ns) k) = ancestors (nodes d k)"
  "classes (nodes (foldl (\<lambda>d1 n. set_hidden n True d1) d ns) k) = classes (nodes d k)"
  "textContent (nodes (foldl (\<lambda>d1 n. set_hidden n True d1) d ns) k) = textContent (nodes d k)"
  "tag (nodes (foldl (\<lambda>d1 n. set_hidden n True d1) d ns) k) = tag (nodes d k)"
  "display (nodes (foldl (\<lambda>d1 n. set_hidden n True d1) d ns) k) = display (nodes d k)"
  "doc_order (foldl (\<lambda>d1 n. set_hidden n True d1) d ns) = doc_order d"
  "activeElement (foldl (\<lambda>d1 n. set_hidden n True d1) d ns) = activeElement d"
  "timers (foldl (\<lambda>d1 n. set_hidden n True d1) d ns) = timers d"
  "fresh (foldl (\<lambda>d1 n. set_hidden n True d1) d ns) = fresh d"
  by (induction ns arbitrary: d) auto

lemma showSuccess_attrs:
  "attrs (nodes (showSuccess refs d) k) key =
     (if key = ''hidden''
      then (if k = successEl refs then None
            else if k \<in> set (qsa (Either (ByClass ''form-group'') (ByClass ''form-actions''))
                              (Some (form refs)) d)
                 then Some [] else attrs (nodes d k) key)
      else attrs (nodes d k) key)"
  by (auto simp: showSuccess_def set_hidden_attrs hide_all_attrs)

lemma showSuccess_other [simp]:
  "el_value (nodes (showSuccess refs d) k) = el_value (nodes d k)"
  "ancestors (nodes (showSuccess refs d) k) = ancestors (nodes d k)"
  "classes (nodes (showSuccess refs d) k) = classes (nodes d k)"
  "textContent (nodes (showSuccess refs d) k) = textContent (nodes d k)"
  "tag (nodes (showSuccess refs d) k) = tag (nodes d k)"
  "display (nodes (showSuccess refs d) k) = display (nodes d k)"
  "doc_order (showSuccess refs d) = doc_order d"
  "timers (showSuccess refs d) = timers d"
  "fresh (showSuccess refs d) = fresh d"
  by (simp_all add: showSuccess_def)

lemma focusable_focus: "focusable (focus n d) k = focusable d k"
  by (simp add: focusable_def concealed_def list_ex_iff not_displayed_def focus_target_def
      form_control_def getAttribute_def)

lemma showSuccess_active:
  "activeElement (showSuccess refs d) =
     (if focusable (showSuccess refs d) (successEl refs) then Some (successEl refs)
      else activeElement d)"
proof -
  let ?p = "set_hidden (successEl refs) False
       (foldl (\<lambda>d1 n. set_hidden n True d1) d
          (qsa (Either (ByClass ''form-group'') (ByClass ''form-actions'')) (Some (form refs)) d))"
  have "showSuccess refs d = focus (successEl refs) ?p"
    by (simp add: showSuccess_def)
  then have "focusable (showSuccess refs d) (successEl refs) = focusable ?p (successEl refs)"
    by (simp only: focusable_focus)
  then show ?thesis
    by (simp add: showSuccess_def)
qed

lemma showSuccess_not_displayed:
  "not_displayed (showSuccess refs d) a =
     (if a = successEl refs then display (nodes d a) = lit ''none''
      else a \<in> set (qsa (Either (ByClass ''form-group'') (ByClass ''form-actions''))
                     (Some (form refs)) d)
           \<or> not_displayed d a)"
  by (simp add: not_displayed_def getAttribute_def showSuccess_attrs)

lemma showSuccess_concealed:
  "concealed (showSuccess refs d) k =
     list_ex (\<lambda>a. if a = successEl refs then display (nodes d a) = lit ''none''
                   else a \<in> set (qsa (Either (ByClass ''form-group'') (ByClass ''form-actions''))
                                  (Some (form refs)) d)
                        \<or> not_displayed d a)
       (k # ancestors (nodes d k))"
  unfolding concealed_def list_ex_iff
  by (simp add: showSuccess_not_displayed)

lemma showSuccess_focusable:
  "focusable (showSuccess refs d) k =
     (k \<in> set (doc_order d) \<and> \<not> concealed (showSuccess refs d) k \<and> focus_target d k)"
proof -
  have "focus_target (showSuccess refs d) k = focus_target d k"
    by (rule focus_target_frame) (simp_all add: showSuccess_attrs)
  then show ?thesis
    by (simp add: focusable_def)
qed

lemma qsa_mem:
  "k \<in> set (qsa s r d) \<longleftrightarrow> k \<in> set (doc_order d) \<and> in_scope d r k \<and> matches (nodes d k) s"
  by (auto simp: qsa_def)

text \<open>The run of the submit listener on valid fields, and what it leaves as it was.\<close>

lemma valid_run:
  assumes "field_present name_config d ni ne ng" "field_present email_config d ei ee eg"
    "field_present message_config d mi me mg" "invalid_inputs d = {}"
  shows "submit_listener refs ev d =
           (preventDefault ev,
            simulateSend (setSubmitLoading refs True (validated d ni ne ng ei ee eg mi me mg)),
            AwaitingSend)"
  using assms(4) by (simp add: submit_listener_def validateAll_validated [OF assms(1-3)])

lemma sending_frame:
  fixes ni ng ei eg mi mg :: node
  assumes "childless d ne" "childless d ee" "childless d me" "childless d (submitBtn refs)"
  defines "d1 \<equiv> simulateSend (setSubmitLoading refs True (validated d ni ne ng ei ee eg mi me mg))"
  shows "doc_order d1 = doc_order d"
    and "qsa (Either (ByClass ''form-group'') (ByClass ''form-actions'')) (Some (form refs)) d1
           = qsa (Either (ByClass ''form-group'') (ByClass ''form-actions'')) (Some (form refs)) d"
    and "not_displayed d1 a = not_displayed d a"
    and "k \<noteq> submitBtn refs \<Longrightarrow> focus_target d1 k = focus_target d k"
    and "ancestors (nodes d1 k) = ancestors (nodes d k)"
    and "display (nodes d1 k) = display (nodes d k)"
    and "activeElement d1 = activeElement d"
    and "key \<noteq> ''aria-invalid'' \<Longrightarrow> key \<noteq> ''data-loading'' \<Longrightarrow> key \<noteq> ''disabled''
           \<Longrightarrow> attrs (nodes d1 k) key = attrs (nodes d k) key"
    and "c \<noteq> ''form-group--error'' \<Longrightarrow> (c \<in> classes (nodes d1 k)) = (c \<in> classes (nodes d k))"
    and "fresh d1 = fresh d"
    and "qs (ById x) r d1 = qs (ById x) r d"
    and "c \<noteq> ''form-group--error'' \<Longrightarrow> qs (ByClass c) r d1 = qs (ByClass c) r d"
    and "wf_page d1 = wf_page d"
proof -
  show ord: "doc_order d1 = doc_order d"
    using assms(1-4) by (simp add: d1_def setSubmitLoading_order validated_simps)
  show "qsa (Either (ByClass ''form-group'') (ByClass ''form-actions'')) (Some (form refs)) d1
           = qsa (Either (ByClass ''form-group'') (ByClass ''form-actions'')) (Some (form refs)) d"
    unfolding qsa_def ord
    by (intro filter_cong refl) (simp add: d1_def in_scope_def validated_class_other)
  show "not_displayed d1 a = not_displayed d a"
    by (rule not_displayed_frame)
      (simp_all add: d1_def setSubmitLoading_attrs validated_attrs_other)
  show "focus_target d1 k = focus_target d k" if "k \<noteq> submitBtn refs"
    using that
    by (intro focus_target_frame)
      (simp_all add: d1_def setSubmitLoading_attrs validated_attrs_other)
  show "ancestors (nodes d1 k) = ancestors (nodes d k)" "display (nodes d1 k) = display (nodes d k)"
    "activeElement d1 = activeElement d" "fresh d1 = fresh d"
    by (simp_all add: d1_def)
  show "attrs (nodes d1 k) key = attrs (nodes d k) key"
    if "key \<noteq> ''aria-invalid''" "key \<noteq> ''data-loading''" "key \<noteq> ''disabled''"
    using that by (simp add: d1_def setSubmitLoading_attrs validated_attrs_other)
  show "(c \<in> classes (nodes d1 k)) = (c \<in> classes (nodes d k))" if "c \<noteq> ''form-group--error''"
    using that by (simp add: d1_def validated_class_other)
  show "qs (ById x) r d1 = qs (ById x) r d"
    unfolding qs_def ord
    by (intro find_cong refl)
      (simp add: d1_def in_scope_def setSubmitLoading_attrs validated_attrs_other
        split: option.splits)
  show "qs (ByClass c) r d1 = qs (ByClass c) r d" if "c \<noteq> ''form-group--error''"
    unfolding qs_def ord using that
    by (intro find_cong refl)
      (simp add: d1_def in_scope_def validated_class_other split: option.splits)
  show "wf_page d1 = wf_page d"
    unfolding wf_page_def ord by (simp add: d1_def)
qed

text \<open>What is shown, and where the focus is, when the send has completed.\<close>

lemma success_state:
  fixes ni ng ei eg mi mg :: node
  assumes "childless d ne" "childless d ee" "childless d me" "childless d (submitBtn refs)"
  defines "d1 \<equiv> simulateSend (setSubmitLoading refs True (validated d ni ne ng ei ee eg mi me mg))"
  defines "hides \<equiv> \<lambda>a. if a = successEl refs then display (nodes d a) = lit ''none''
                        else a \<in> set (qsa (Either (ByClass ''form-group'') (ByClass ''form-actions''))
                                       (Some (form refs)) d)
                             \<or> not_displayed d a"
  shows "getAttribute (showSuccess refs d1) k ''hidden'' =
           (if k = successEl refs then None
            else if k \<in> set (qsa (Either (ByClass ''form-group'') (ByClass ''form-actions''))
                              (Some (form refs)) d)
                 then Some [] else getAttribute d k ''hidden'')"
    and "concealed (showSuccess refs d1) k = list_ex hides (k # ancestors (nodes d k))"
    and "successEl refs \<noteq> submitBtn refs \<Longrightarrow>
           focusable (showSuccess refs d1) (successEl refs) =
             (successEl refs \<in> set (doc_order d) \<and> \<not> concealed (showSuccess refs d1) (successEl refs)
              \<and> focus_target d (successEl refs))"
    and "activeElement (showSuccess refs d1) =
           (if focusable (showSuccess refs d1) (successEl refs) then Some (successEl refs)
            else activeElement d)"
proof -
  note f = sending_frame [OF assms(1-4), where ni = ni and ng = ng and ei = ei and eg = eg
      and mi = mi and mg = mg, folded d1_def]
  show "getAttribute (showSuccess refs d1) k ''hidden'' =
           (if k = successEl refs then None
            else if k \<in> set (qsa (Either (ByClass ''form-group'') (ByClass ''form-actions''))
                              (Some (form refs)) d)
                 then Some [] else getAttribute d k ''hidden'')"
    by (simp add: getAttribute_def showSuccess_attrs f(2) f(8))
  show "concealed (showSuccess refs d1) k = list_ex hides (k # ancestors (nodes d k))"
    unfolding showSuccess_concealed hides_def by (simp add: f(2,3,5,6))
  show "focusable (showSuccess refs d1) (successEl refs) =
             (successEl refs \<in> set (doc_order d) \<and> \<not> concealed (showSuccess refs d1) (successEl refs)
              \<and> focus_target d (successEl refs))" if "successEl refs \<noteq> submitBtn refs"
    unfolding showSuccess_focusable using that by (simp add: f(1) f(4))
  show "activeElement (showSuccess refs d1) =
           (if focusable (showSuccess refs d1) (successEl refs) then Some (successEl refs)
            else activeElement d)"
    unfolding showSuccess_active by (simp add: f(7))
qed

lemma validate_name_Ada: "validate_name (lit ''Ada'') = None"
  by (simp add: validate_name_def trim_def lit_def is_space_def)

lemma plain_fields:
  "field_present name_config (contact_plain n e m) 2 3 1"
  "field_present email_config (contact_plain n e m) 5 6 4"
  "field_present message_config (contact_plain n e m) 8 9 7"
  by (simp_all add: field_present_def name_config_def email_config_def message_config_def
      childless_def qs_def in_scope_def contact_plain_def page_of_def elem_def lit_eq_iff)

lemma plain_values:
  "el_value (nodes (contact_plain n e m) 2) = n" "el_value (nodes (contact_plain n e m) 5) = e"
  "el_value (nodes (contact_plain n e m) 8) = m"
  by (simp_all add: contact_plain_def page_of_def elem_def)

lemma plain_queries:
  "qs (ById (lit ''contact-form'')) None (contact_plain n e m) = Some 0"
  "qs (ById (lit ''submit-btn'')) (Some 0) (contact_plain n e m) = Some 10"
  "qs (ById (lit ''form-success'')) None (contact_plain n e m) = Some 11"
  "qs (ById (lit ''submit-error'')) (Some 0) (contact_plain n e m) = None"
  "qs (ByClass ''form-actions'') (Some 0) (contact_plain n e m) = None"
  "qsa (Either (ByClass ''form-group'') (ByClass ''form-actions'')) (Some 0) (contact_plain n e m)
     = [1, 4, 7]"
  "childless (contact_plain n e m) 10"
  by (simp_all add: childless_def qs_def qsa_def in_scope_def contact_plain_def page_of_def
      elem_def lit_eq_iff)

lemma plain_shape:
  "doc_order (contact_plain n e m) = [0, 1, 2, 3, 4, 5, 6, 7, 8, 9, 10, 11]"
  "ancestors (nodes (contact_plain n e m) 10) = [0]"
  "ancestors (nodes (contact_plain n e m) 11) = [0]"
  "\<not> not_displayed (contact_plain n e m) 0" "\<not> not_displayed (contact_plain n e m) 10"
  "display (nodes (contact_plain n e m) 11) = []"
  "\<not> focus_target (contact_plain n e m) 11"
  "activeElement (contact_plain n e m) = None"
  "fresh (contact_plain n e m) = 12"
  "wf_page (contact_plain n e m)"
  by (simp_all add: not_displayed_def focus_target_def form_control_def getAttribute_def
      wf_page_def contact_plain_def page_of_def elem_def)

lemma plain_expected: "spec_expected_contact_form (contact_plain n e m)"
proof -
  have "el (validators f) (contact_plain n e m) \<noteq> None
      \<and> errorEl (validators f) (contact_plain n e m) \<noteq> None
      \<and> groupEl (validators f) (contact_plain n e m) \<noteq> None" for f
    using plain_fields [of n e m] by (cases f) (simp_all add: field_present_def)
  then show ?thesis
    by (simp add: spec_expected_contact_form_def plain_queries)
qed

lemma plain_wired: "fst (initContactForm (contact_plain n e m)) = Some plain_refs"
  by (simp add: initContactForm_def plain_queries plain_refs_def)

lemma plain_valid: "invalid_inputs valid_plain = {}"
  by (simp add: valid_plain_def invalid_inputs_present [OF plain_fields] plain_values
      validate_name_Ada validate_email_abc validate_message_long)

lemma plain_sending:
  "submit_listener plain_refs ev valid_plain =
     (preventDefault ev,
      simulateSend (setSubmitLoading plain_refs True (validated valid_plain 2 3 1 5 6 4 8 9 7)),
      AwaitingSend)"
  unfolding valid_plain_def
  by (rule valid_run [OF plain_fields plain_valid [unfolded valid_plain_def]])

text \<open>
  Claim C3 as stated fails. The page \<open>valid_plain\<close> has every element the contact form
  is expected to have and holds valid values; its submit control is a child of the form,
  not of an element \<^verbatim>\<open>.form-actions\<close>, and its success element has no \<^verbatim>\<open>tabindex\<close>. The
  submission proceeds and the send completes, but the submit control is still shown and
  the focus has not moved to the success element: no element has it, as before.
\<close>

theorem C3_submit_control_and_focus_stay:
  "spec_expected_contact_form valid_plain
   \<and> fst (initContactForm valid_plain) = Some plain_refs
   \<and> invalid_inputs valid_plain = {}
   \<and> snd (snd (submit_listener plain_refs \<lparr>defaultPrevented = False\<rparr> valid_plain)) = AwaitingSend
   \<and> submit_resume plain_refs Resolved valid_plain_sending
       = Inr (showSuccess plain_refs valid_plain_sending)
   \<and> getAttribute (showSuccess plain_refs valid_plain_sending) 10 ''hidden'' = None
   \<and> \<not> concealed (showSuccess plain_refs valid_plain_sending) 10
   \<and> activeElement valid_plain = None
   \<and> activeElement (showSuccess plain_refs valid_plain_sending) = None"
proof -
  let ?d1 = "simulateSend (setSubmitLoading plain_refs True (validated valid_plain 2 3 1 5 6 4 8 9 7))"
  have r: "form plain_refs = 0" "submitBtn plain_refs = 10" "successEl plain_refs = 11"
    by (simp_all add: plain_refs_def)
  have s: "valid_plain_sending = ?d1"
    by (simp add: valid_plain_sending_def plain_sending)
  have leaf: "childless valid_plain 3" "childless valid_plain 6" "childless valid_plain 9"
    "childless valid_plain (submitBtn plain_refs)"
    using plain_fields [of "lit ''Ada''" "lit ''a@b.c''" "lit ''this is long enough''"]
    by (simp_all add: valid_plain_def field_present_def r plain_queries)
  note st = success_state [OF leaf, where ni = 2 and ng = 1 and ei = 5 and eg = 4
      and mi = 8 and mg = 7, unfolded r]
  have q: "qsa (Either (ByClass ''form-group'') (ByClass ''form-actions'')) (Some 0) valid_plain
     = [1, 4, 7]"
    by (simp add: valid_plain_def plain_queries)
  have sh: "ancestors (nodes valid_plain 10) = [0]" "ancestors (nodes valid_plain 11) = [0]"
    "\<not> not_displayed valid_plain 0" "\<not> not_displayed valid_plain 10"
    "\<not> focus_target valid_plain 11" "activeElement valid_plain = None"
    by (simp_all add: valid_plain_def plain_shape)
  have 1: "getAttribute (showSuccess plain_refs ?d1) 10 ''hidden'' = None"
    using sh(4) st(1) [of 10] by (simp add: q not_displayed_def)
  have 2: "\<not> concealed (showSuccess plain_refs ?d1) 10"
    using st(2) [of 10] by (simp add: q sh)
  have "\<not> focusable (showSuccess plain_refs ?d1) 11"
    using st(3) by (simp add: sh)
  then have 3: "activeElement (showSuccess plain_refs ?d1) = None"
    using st(4) by (simp add: sh)
  have 4: "spec_expected_contact_form valid_plain"
    "fst (initContactForm valid_plain) = Some plain_refs"
    by (simp_all add: valid_plain_def plain_expected plain_wired)
  show ?thesis
    unfolding s using 1 2 3 4 plain_valid sh(6)
    by (simp add: plain_sending submit_resume_def)
qed

text \<open>
  Claim C3, amended. On a page whose three fields are present and valid, the submit
  listener cancels the default action, puts the submit control in the loading state
  (\<^verbatim>\<open>data-loading="true"\<close>, disabled, label \<^verbatim>\<open>Sending...\<close> with U+2026) and starts the send,
  whose promise a timer of 1000 ms resolves. When the send has completed, every element
  of the form with class \<^verbatim>\<open>form-group\<close> or \<^verbatim>\<open>form-actions\<close>, the success element apart, has
  the attribute \<^verbatim>\<open>hidden\<close>, so each field group of that class in the form has it; the
  success element has lost the attribute; and \<^verbatim>\<open>focus\<close> has been called on the success
  element. So an element is not shown afterwards exactly when it or an element around it
  is one of those hidden elements, or was not displayed before (for the success element:
  by its inline style only). The submit control is hidden when it is inside such an
  element and stays shown when it was shown and is inside none. The success element is
  shown when its inline style shows it and no element around it hides it. The focus is on
  the success element when that element is focusable: in the document, shown, and a
  focus target (a \<^verbatim>\<open>div\<close> is one when it carries \<^verbatim>\<open>tabindex\<close>); otherwise the focus is where
  it was.
\<close>

theorem C3_valid_submission_hides_by_class:
  assumes n: "field_present name_config d ni ne ng"
    and e: "field_present email_config d ei ee eg"
    and m: "field_present message_config d mi me mg"
    and valid: "invalid_inputs d = {}"
    and btn: "qs (ById (lit ''submit-btn'')) (Some (form refs)) d = Some (submitBtn refs)"
    and btn_leaf: "childless d (submitBtn refs)"
    and success: "qs (ById (lit ''form-success'')) None d = Some (successEl refs)"
  shows "defaultPrevented (fst (submit_listener refs ev d))
       \<and> snd (snd (submit_listener refs ev d)) = AwaitingSend
       \<and> getAttribute (fst (snd (submit_listener refs ev d))) (submitBtn refs) ''data-loading''
           = Some (lit ''true'')
       \<and> getAttribute (fst (snd (submit_listener refs ev d))) (submitBtn refs) ''disabled'' \<noteq> None
       \<and> textContent (nodes (fst (snd (submit_listener refs ev d))) (submitBtn refs))
           = lit ''Sending'' @ [8230]
       \<and> timers (fst (snd (submit_listener refs ev d))) = timers d @ [(1000, ResolveSend)]
       \<and> (\<exists>d2. submit_resume refs Resolved (fst (snd (submit_listener refs ev d))) = Inr d2
             \<and> (\<forall>k \<in> set (qsa (Either (ByClass ''form-group'') (ByClass ''form-actions''))
                              (Some (form refs)) d).
                   k \<noteq> successEl refs \<longrightarrow> getAttribute d2 k ''hidden'' \<noteq> None)
             \<and> (\<forall>g \<in> {ng, eg, mg}.
                   ''form-group'' \<in> classes (nodes d g) \<and> form refs \<in> set (ancestors (nodes d g))
                     \<longrightarrow> getAttribute d2 g ''hidden'' \<noteq> None)
             \<and> getAttribute d2 (successEl refs) ''hidden'' = None
             \<and> (\<forall>k. concealed d2 k =
                   list_ex (\<lambda>a. if a = successEl refs then display (nodes d a) = lit ''none''
                                 else a \<in> set (qsa (Either (ByClass ''form-group'')
                                                     (ByClass ''form-actions'')) (Some (form refs)) d)
                                      \<or> not_displayed d a)
                     (k # ancestors (nodes d k)))
             \<and> ((\<exists>a \<in> set (submitBtn refs # ancestors (nodes d (submitBtn refs))).
                    a \<noteq> successEl refs
                    \<and> a \<in> set (qsa (Either (ByClass ''form-group'') (ByClass ''form-actions''))
                                 (Some (form refs)) d))
                  \<longrightarrow> concealed d2 (submitBtn refs))
             \<and> (\<not> concealed d (submitBtn refs)
                 \<and> (\<forall>a \<in> set (submitBtn refs # ancestors (nodes d (submitBtn refs))).
                       a \<notin> set (qsa (Either (ByClass ''form-group'') (ByClass ''form-actions''))
                                  (Some (form refs)) d))
                  \<longrightarrow> \<not> concealed d2 (submitBtn refs))
             \<and> (display (nodes d (successEl refs)) \<noteq> lit ''none''
                 \<and> (\<forall>a \<in> set (ancestors (nodes d (successEl refs))).
                       a \<noteq> successEl refs \<and> \<not> not_displayed d a
                       \<and> a \<notin> set (qsa (Either (ByClass ''form-group'') (ByClass ''form-actions''))
                                    (Some (form refs)) d))
                  \<longrightarrow> \<not> concealed d2 (successEl refs))
             \<and> focusable d2 (successEl refs)
                 = (\<not> concealed d2 (successEl refs) \<and> focus_target d (successEl refs))
             \<and> activeElement d2
                 = (if focusable d2 (successEl refs) then Some (successEl refs)
                    else activeElement d))"
proof -
  let ?q = "validated d ni ne ng ei ee eg mi me mg"
  let ?d1 = "simulateSend (setSubmitLoading refs True ?q)"
  let ?sel = "Either (ByClass ''form-group'') (ByClass ''form-actions'')"
  let ?L = "qsa ?sel (Some (form refs)) d"
  let ?hides = "\<lambda>a. if a = successEl refs then display (nodes d a) = lit ''none''
                     else a \<in> set ?L \<or> not_displayed d a"
  let ?b = "submitBtn refs"
  let ?s = "successEl refs"
  have leaf: "childless d ne" "childless d ee" "childless d me"
    using n e m by (simp_all add: field_present_def)
  have run: "submit_listener refs ev d = (preventDefault ev, ?d1, AwaitingSend)"
    using n e m valid by (rule valid_run)
  note st = success_state [OF leaf btn_leaf, where ni = ni and ng = ng and ei = ei and eg = eg
      and mi = mi and mg = mg]
  have in_doc: "ng \<in> set (doc_order d)" "eg \<in> set (doc_order d)" "mg \<in> set (doc_order d)"
    using n e m by (auto simp: field_present_def dest: qs_ById_Some)
  have s_doc: "?s \<in> set (doc_order d)"
    using qs_ById_Some [OF success] by simp
  have s_neq: "?s \<noteq> ng" "?s \<noteq> eg" "?s \<noteq> mg"
    using n e m qs_id_neq [OF success, of "lit ''group-name''" None ng]
      qs_id_neq [OF success, of "lit ''group-email''" None eg]
      qs_id_neq [OF success, of "lit ''group-message''" None mg]
    by (simp_all add: field_present_def lit_eq_iff)
  have sb: "?s \<noteq> ?b"
    using qs_id_neq [OF success btn] by (simp add: lit_eq_iff)
  let ?d2 = "showSuccess refs ?d1"
  have res: "submit_resume refs Resolved ?d1 = Inr ?d2"
    by (simp add: submit_resume_def)
  have h_all: "\<forall>k \<in> set ?L. k \<noteq> ?s \<longrightarrow> getAttribute ?d2 k ''hidden'' \<noteq> None"
    by (simp add: st(1))
  have h_grp: "\<forall>g \<in> {ng, eg, mg}.
      ''form-group'' \<in> classes (nodes d g) \<and> form refs \<in> set (ancestors (nodes d g))
        \<longrightarrow> getAttribute ?d2 g ''hidden'' \<noteq> None"
    using in_doc s_neq by (auto simp: st(1) qsa_mem in_scope_def)
  have h_s: "getAttribute ?d2 ?s ''hidden'' = None"
    by (simp add: st(1))
  have c_all: "\<forall>k. concealed ?d2 k = list_ex ?hides (k # ancestors (nodes d k))"
    using st(2) by simp
  have c: "concealed ?d2 k = (\<exists>a \<in> set (k # ancestors (nodes d k)). ?hides a)" for k
    unfolding st(2) list_ex_iff ..
  have c_btn: "(\<exists>a \<in> set (?b # ancestors (nodes d ?b)). a \<noteq> ?s \<and> a \<in> set ?L)
      \<longrightarrow> concealed ?d2 ?b"
    unfolding c by auto
  have "\<not> (\<exists>a \<in> set (?b # ancestors (nodes d ?b)). ?hides a)"
    if "\<not> concealed d ?b" "\<forall>a \<in> set (?b # ancestors (nodes d ?b)). a \<notin> set ?L"
    using that by (auto simp: concealed_def list_ex_iff not_displayed_def)
  then have k_btn: "\<not> concealed d ?b \<and> (\<forall>a \<in> set (?b # ancestors (nodes d ?b)). a \<notin> set ?L)
      \<longrightarrow> \<not> concealed ?d2 ?b"
    unfolding c by blast
  have k_s: "display (nodes d ?s) \<noteq> lit ''none''
      \<and> (\<forall>a \<in> set (ancestors (nodes d ?s)). a \<noteq> ?s \<and> \<not> not_displayed d a \<and> a \<notin> set ?L)
      \<longrightarrow> \<not> concealed ?d2 ?s"
    unfolding c by auto
  have f_s: "focusable ?d2 ?s = (\<not> concealed ?d2 ?s \<and> focus_target d ?s)"
    using st(3) [OF sb] s_doc by simp
  have a_s: "activeElement ?d2 = (if focusable ?d2 ?s then Some ?s else activeElement d)"
    by (rule st(4))
  have 1: "defaultPrevented (fst (submit_listener refs ev d))"
    by (simp add: run preventDefault_def)
  have 2: "getAttribute ?d1 ?b ''data-loading'' = Some (lit ''true'')
       \<and> getAttribute ?d1 ?b ''disabled'' \<noteq> None
       \<and> textContent (nodes ?d1 ?b) = lit ''Sending'' @ [8230]
       \<and> timers ?d1 = timers d @ [(1000, ResolveSend)]"
    by (simp add: getAttribute_def setSubmitLoading_attrs setSubmitLoading_text String_bool_def)
  have "\<exists>d2. submit_resume refs Resolved ?d1 = Inr d2
          \<and> (\<forall>k \<in> set ?L. k \<noteq> ?s \<longrightarrow> getAttribute d2 k ''hidden'' \<noteq> None)
          \<and> (\<forall>g \<in> {ng, eg, mg}.
                ''form-group'' \<in> classes (nodes d g) \<and> form refs \<in> set (ancestors (nodes d g))
                  \<longrightarrow> getAttribute d2 g ''hidden'' \<noteq> None)
          \<and> getAttribute d2 ?s ''hidden'' = None
          \<and> (\<forall>k. concealed d2 k = list_ex ?hides (k # ancestors (nodes d k)))
          \<and> ((\<exists>a \<in> set (?b # ancestors (nodes d ?b)). a \<noteq> ?s \<and> a \<in> set ?L)
                \<longrightarrow> concealed d2 ?b)
          \<and> (\<not> concealed d ?b \<and> (\<forall>a \<in> set (?b # ancestors (nodes d ?b)). a \<notin> set ?L)
                \<longrightarrow> \<not> concealed d2 ?b)
          \<and> (display (nodes d ?s) \<noteq> lit ''none''
               \<and> (\<forall>a \<in> set (ancestors (nodes d ?s)).
                     a \<noteq> ?s \<and> \<not> not_displayed d a \<and> a \<notin> set ?L)
                \<longrightarrow> \<not> concealed d2 ?s)
          \<and> focusable d2 ?s = (\<not> concealed d2 ?s \<and> focus_target d ?s)
          \<and> activeElement d2 = (if focusable d2 ?s then Some ?s else activeElement d)"
    by (intro exI [of _ ?d2] conjI res h_all h_grp h_s c_all c_btn k_btn k_s f_s a_s)
  with 1 2 show ?thesis
    unfolding run by (simp only: fst_conv snd_conv) simp
qed

lemma ex_contract:
  "childless (contact_example n e m) 11"
  "qs (ById (lit ''form-success'')) None (contact_example n e m) = Some 12"
  "\<forall>g \<in> {1, 4, 7}. ''form-group'' \<in> classes (nodes (contact_example n e m) g)
      \<and> 0 \<in> set (ancestors (nodes (contact_example n e m) g))"
  "10 \<in> set (ancestors (nodes (contact_example n e m) 11))"
  "10 \<in> set (doc_order (contact_example n e m))"
  "''form-actions'' \<in> classes (nodes (contact_example n e m) 10)"
  "0 \<in> set (ancestors (nodes (contact_example n e m) 10))"
  by (simp_all add: childless_def qs_def in_scope_def contact_example_def page_of_def elem_def
      lit_eq_iff)

lemma ex_shape:
  "qsa (Either (ByClass ''form-group'') (ByClass ''form-actions'')) (Some 0) (contact_example n e m)
     = [1, 4, 7, 10]"
  "ancestors (nodes (contact_example n e m) 11) = [10, 0]"
  "ancestors (nodes (contact_example n e m) 12) = [0]"
  "\<not> not_displayed (contact_example n e m) 0"
  "display (nodes (contact_example n e m) 12) = []"
  "focus_target (contact_example n e m) 12"
  by (simp_all add: qsa_def in_scope_def not_displayed_def focus_target_def form_control_def
      parses_as_integer_def getAttribute_def contact_example_def page_of_def elem_def lit_def)

theorem C3_valid_submission_hides_by_class_witness:
  "invalid_inputs (contact_example (lit ''Ada'') (lit ''a@b.c'') (lit ''this is long enough'')) = {}
   \<and> snd (snd (submit_listener contact_refs \<lparr>defaultPrevented = False\<rparr>
        (contact_example (lit ''Ada'') (lit ''a@b.c'') (lit ''this is long enough''))))
       = AwaitingSend
   \<and> textContent (nodes (fst (snd (submit_listener contact_refs \<lparr>defaultPrevented = False\<rparr>
        (contact_example (lit ''Ada'') (lit ''a@b.c'') (lit ''this is long enough''))))) 11)
       = lit ''Sending'' @ [8230]
   \<and> (\<exists>d2. submit_resume contact_refs Resolved
              (fst (snd (submit_listener contact_refs \<lparr>defaultPrevented = False\<rparr>
                 (contact_example (lit ''Ada'') (lit ''a@b.c'') (lit ''this is long enough'')))))
            = Inr d2
          \<and> getAttribute d2 1 ''hidden'' \<noteq> None
          \<and> getAttribute d2 4 ''hidden'' \<noteq> None
          \<and> getAttribute d2 7 ''hidden'' \<noteq> None
          \<and> getAttribute d2 10 ''hidden'' \<noteq> None
          \<and> concealed d2 11
          \<and> getAttribute d2 12 ''hidden'' = None
          \<and> \<not> concealed d2 12
          \<and> focusable d2 12
          \<and> activeElement d2 = Some 12)"
proof -
  let ?p = "contact_example (lit ''Ada'') (lit ''a@b.c'') (lit ''this is long enough'')"
  let ?ev = "\<lparr>defaultPrevented = False\<rparr>"
  let ?L = "qsa (Either (ByClass ''form-group'') (ByClass ''form-actions'')) (Some 0) ?p"
  have ok: "invalid_inputs ?p = {}"
    by (simp add: invalid_inputs_present [OF ex_fields] ex_values validate_name_Ada
        validate_email_abc validate_message_long)
  have r: "form contact_refs = 0" "submitBtn contact_refs = 11" "successEl contact_refs = 12"
    by (simp_all add: contact_refs_def)
  have b: "qs (ById (lit ''submit-btn'')) (Some (form contact_refs)) ?p = Some (submitBtn contact_refs)"
    and l: "childless ?p (submitBtn contact_refs)"
    and s: "qs (ById (lit ''form-success'')) None ?p = Some (successEl contact_refs)"
    by (simp_all add: r ex_button ex_contract)
  note t = C3_valid_submission_hides_by_class [OF ex_fields ok b l s, of ?ev, unfolded r]
  note t2 = t [THEN conjunct2]
  note t5 = t2 [THEN conjunct2, THEN conjunct2, THEN conjunct2]
  have a: "snd (snd (submit_listener contact_refs ?ev ?p)) = AwaitingSend"
    by (rule t2 [THEN conjunct1])
  have x: "textContent (nodes (fst (snd (submit_listener contact_refs ?ev ?p))) 11)
       = lit ''Sending'' @ [8230]"
    by (rule t5 [THEN conjunct1])
  from t5 [THEN conjunct2, THEN conjunct2] obtain d2 where d2:
    "submit_resume contact_refs Resolved (fst (snd (submit_listener contact_refs ?ev ?p))) = Inr d2"
    "\<forall>k \<in> set ?L. k \<noteq> 12 \<longrightarrow> getAttribute d2 k ''hidden'' \<noteq> None"
    "getAttribute d2 12 ''hidden'' = None"
    "\<forall>k. concealed d2 k =
        list_ex (\<lambda>a. if a = 12 then display (nodes ?p a) = lit ''none''
                      else a \<in> set ?L \<or> not_displayed ?p a)
          (k # ancestors (nodes ?p k))"
    "focusable d2 12 = (\<not> concealed d2 12 \<and> focus_target ?p 12)"
    "activeElement d2 = (if focusable d2 12 then Some 12 else activeElement ?p)"
    by (elim exE conjE) (rule that; assumption)
  have h: "getAttribute d2 1 ''hidden'' \<noteq> None" "getAttribute d2 4 ''hidden'' \<noteq> None"
    "getAttribute d2 7 ''hidden'' \<noteq> None" "getAttribute d2 10 ''hidden'' \<noteq> None"
    using d2(2) by (simp_all add: ex_shape)
  have c11: "concealed d2 11"
    using d2(4) [rule_format, of 11] by (simp add: ex_shape)
  have c12: "\<not> concealed d2 12"
    using d2(4) [rule_format, of 12] by (simp add: ex_shape)
  have f12: "focusable d2 12"
    using d2(5) c12 by (simp add: ex_shape)
  have a12: "activeElement d2 = Some 12"
    using d2(6) f12 by simp
  show ?thesis
    using ok a x d2(1,3) h c11 c12 f12 a12 by (intro conjI exI [of _ d2]) assumption+
qed


subsection \<open>A failing send\<close>

lemma set_textContent_simps:
  "attrs (nodes (set_textContent n t d) k) = attrs (nodes d k)"
  "ancestors (nodes (set_textContent n t d) k) = ancestors (nodes d k)"
  "el_value (nodes (set_textContent n t d) k) = el_value (nodes d k)"
  "display (nodes (set_textContent n t d) k) = display (nodes d k)"
  "textContent (nodes (set_textContent n t d) k) = (if k = n then t else textContent (nodes d k))"
  "doc_order (set_textContent n t d) = filter (\<lambda>m. n \<notin> set (ancestors (nodes d m))) (doc_order d)"
  "fresh (set_textContent n t d) = fresh d"
  by (simp_all add: set_textContent_def)

lemma set_textContent_shown [simp]:
  "not_displayed (set_textContent n t d) a = not_displayed d a"
  "concealed (set_textContent n t d) k = concealed d k"
  by (simp_all add: concealed_def list_ex_iff not_displayed_def getAttribute_def
      set_textContent_simps)

lemma setSubmitLoading_shown [simp]:
  "not_displayed (setSubmitLoading refs b d) a = not_displayed d a"
  "concealed (setSubmitLoading refs b d) k = concealed d k"
  by (simp_all add: concealed_def list_ex_iff not_displayed_def getAttribute_def
      setSubmitLoading_attrs)

lemma find_unique:
  assumes "n \<in> set xs" and "P n" and "\<And>k. k \<in> set xs \<Longrightarrow> P k \<Longrightarrow> k = n"
  shows "find P xs = Some n"
proof -
  obtain f where f: "find P xs = Some f"
    using find_exists [OF assms(1), of P] assms(2) by blast
  then have "P f \<and> f \<in> set xs" by (rule find_Some_props)
  then have "f = n" using assms(3) by blast
  with f show ?thesis by simp
qed

lemma find_filter_keep:
  "find P xs = Some n \<Longrightarrow> Q n \<Longrightarrow> find P (filter Q xs) = Some n"
  by (induction xs) (auto split: if_splits)

lemma split_at_target:
  "a \<in> set xs \<Longrightarrow>
     takeWhile (\<lambda>k. k \<noteq> a) xs @ [a] @ drop 1 (dropWhile (\<lambda>k. k \<noteq> a) xs) = xs"
  by (induction xs) auto

lemma insert_after_set:
  assumes "a \<in> set xs"
  shows "set (takeWhile (\<lambda>k. k \<noteq> a) xs @ [a]
              @ takeWhile Q (drop 1 (dropWhile (\<lambda>k. k \<noteq> a) xs)) @ [n]
              @ dropWhile Q (drop 1 (dropWhile (\<lambda>k. k \<noteq> a) xs)))
         = insert n (set xs)"
proof -
  let ?rest = "drop 1 (dropWhile (\<lambda>k. k \<noteq> a) xs)"
  have "set (takeWhile Q ?rest @ dropWhile Q ?rest) = set ?rest"
    by simp
  then have 1: "set (takeWhile Q ?rest) \<union> set (dropWhile Q ?rest) = set ?rest"
    by (simp only: set_append)
  have 2: "set xs = set (takeWhile (\<lambda>k. k \<noteq> a) xs @ [a] @ ?rest)"
    by (rule arg_cong [where f = set, OF split_at_target [OF assms, symmetric]])
  have 3: "set (takeWhile (\<lambda>k. k \<noteq> a) xs @ [a] @ ?rest)
             = set (takeWhile (\<lambda>k. k \<noteq> a) xs) \<union> {a} \<union> set ?rest"
    by simp
  have 4: "set xs = set (takeWhile (\<lambda>k. k \<noteq> a) xs) \<union> {a} \<union> set ?rest"
    using 2 3 by (rule trans)
  have "set (takeWhile (\<lambda>k. k \<noteq> a) xs @ [a] @ takeWhile Q ?rest @ [n] @ dropWhile Q ?rest)
          = insert n (set (takeWhile (\<lambda>k. k \<noteq> a) xs) \<union> {a}
              \<union> (set (takeWhile Q ?rest) \<union> set (dropWhile Q ?rest)))"
    by auto
  also have "\<dots> = insert n (set (takeWhile (\<lambda>k. k \<noteq> a) xs) \<union> {a} \<union> set ?rest)"
    by (simp only: 1)
  also have "\<dots> = insert n (set xs)"
    by (rule arg_cong [where f = "insert n", OF 4 [symmetric]])
  finally show ?thesis .
qed


lemma showSubmitError_reuse:
  "qs (ById (lit ''submit-error'')) (Some (form refs)) d = Some old
     \<Longrightarrow> showSubmitError refs msg d = Inr (set_textContent old msg d)"
  by (simp add: showSubmitError_def)

lemma showSubmitError_create:
  assumes none: "qs (ById (lit ''submit-error'')) (Some (form refs)) d = None"
    and act: "qs (ByClass ''form-actions'') (Some (form refs)) d = Some a"
    and wf: "wf_page d"
  shows "\<exists>d2. showSubmitError refs msg d = Inr d2
           \<and> fresh d2 = Suc (fresh d)
           \<and> (\<forall>k. k \<noteq> fresh d \<longrightarrow> nodes d2 k = nodes d k)
           \<and> attrs (nodes d2 (fresh d)) ''id'' = Some (lit ''submit-error'')
           \<and> attrs (nodes d2 (fresh d)) ''role'' = Some (lit ''alert'')
           \<and> attrs (nodes d2 (fresh d)) ''aria-live'' = Some (lit ''assertive'')
           \<and> classes (nodes d2 (fresh d)) = {''form-error''}
           \<and> textContent (nodes d2 (fresh d)) = msg
           \<and> ancestors (nodes d2 (fresh d)) = ancestors (nodes d a)
           \<and> set (doc_order d2) = insert (fresh d) (set (doc_order d))
           \<and> timers d2 = timers d \<and> activeElement d2 = activeElement d
           \<and> attrs (nodes d2 (fresh d)) ''hidden'' = None
           \<and> display (nodes d2 (fresh d)) = []"
proof -
  let ?n = "fresh d"
  define d5 where "d5 =
    classList_add ?n ''form-error''
      (setAttribute ?n ''aria-live'' (lit ''assertive'')
        (setAttribute ?n ''role'' (lit ''alert'')
          (setAttribute ?n ''id'' (lit ''submit-error'')
            (d\<lparr>nodes := (nodes d)(?n := blank ''p''), fresh := Suc ?n\<rparr>))))"
  have a_doc: "a \<in> set (doc_order d)" and a_scope: "form refs \<in> set (ancestors (nodes d a))"
    using find_Some_props [OF act [unfolded qs_def]] by (simp_all add: in_scope_def)
  have old: "k < ?n \<and> (\<forall>b \<in> set (ancestors (nodes d k)). b < ?n)" if "k \<in> set (doc_order d)" for k
    using wf that by (simp add: wf_page_def)
  have o5: "doc_order d5 = doc_order d" and f5: "fresh d5 = Suc ?n"
    and t5: "timers d5 = timers d" "activeElement d5 = activeElement d"
    by (simp_all add: d5_def dom_ops)
  have n5: "nodes d5 k = nodes d k" if "k \<noteq> ?n" for k
    using that by (simp add: d5_def dom_ops)
  have new5: "attrs (nodes d5 ?n) ''id'' = Some (lit ''submit-error'')"
    "attrs (nodes d5 ?n) ''role'' = Some (lit ''alert'')"
    "attrs (nodes d5 ?n) ''aria-live'' = Some (lit ''assertive'')"
    "classes (nodes d5 ?n) = {''form-error''}"
    "attrs (nodes d5 ?n) ''hidden'' = None"
    "display (nodes d5 ?n) = []"
    by (simp_all add: d5_def dom_ops blank_def)
  have q5: "qs (ByClass ''form-actions'') (Some (form refs)) d5 = Some a"
  proof -
    have "qs (ByClass ''form-actions'') (Some (form refs)) d5
            = qs (ByClass ''form-actions'') (Some (form refs)) d"
      unfolding qs_def o5
    proof (intro find_cong refl)
      fix k assume "k \<in> set (doc_order d)"
      then have "k \<noteq> ?n" using old [of k] by auto
      then show "(in_scope d5 (Some (form refs)) k \<and> matches (nodes d5 k) (ByClass ''form-actions''))
          = (in_scope d (Some (form refs)) k \<and> matches (nodes d k) (ByClass ''form-actions''))"
        by (simp add: in_scope_def n5)
    qed
    with act show ?thesis by simp
  qed
  have "showSubmitError refs msg d =
          (case qs (ByClass ''form-actions'') (Some (form refs)) d5 of
             None \<Rightarrow> Inl TypeError
           | Some actions \<Rightarrow> Inr (set_textContent ?n msg (insert_after actions ?n d5)))"
    unfolding showSubmitError_def createElement_def d5_def Let_def none by simp
  then have run: "showSubmitError refs msg d = Inr (set_textContent ?n msg (insert_after a ?n d5))"
    by (simp only: q5 option.case)
  have a_neq: "a \<noteq> ?n" using old [OF a_doc] by auto
  have anc5: "ancestors (nodes d5 a) = ancestors (nodes d a)"
    using a_neq by (simp add: n5)
  have anc_ne: "ancestors (nodes d a) \<noteq> []" using a_scope by auto
  let ?pre = "takeWhile (\<lambda>m. m \<noteq> a) (doc_order d)"
  let ?rest = "drop 1 (dropWhile (\<lambda>m. m \<noteq> a) (doc_order d))"
  let ?Q = "\<lambda>m. a \<in> set (ancestors (nodes d5 m))"
  let ?ord = "?pre @ [a] @ takeWhile ?Q ?rest @ [?n] @ dropWhile ?Q ?rest"
  define d6 where "d6 = insert_after a ?n d5"
  have d6: "d6 = d5\<lparr>nodes := (nodes d5)(?n := (nodes d5 ?n)\<lparr>ancestors := ancestors (nodes d a)\<rparr>),
                     doc_order := ?ord\<rparr>"
    using anc_ne a_doc by (simp add: d6_def insert_after_def anc5 o5 Let_def)
  have set6: "set (doc_order d6) = insert ?n (set (doc_order d))"
    unfolding d6 using insert_after_set [OF a_doc, of ?Q ?n] by simp
  have keep: "\<forall>k \<in> set (doc_order d6). ?n \<notin> set (ancestors (nodes d6 k))"
  proof
    fix k assume "k \<in> set (doc_order d6)"
    then have "k = ?n \<or> k \<in> set (doc_order d)" using set6 by auto
    then show "?n \<notin> set (ancestors (nodes d6 k))"
    proof
      assume "k = ?n"
      then show ?thesis using old [OF a_doc] by (auto simp: d6)
    next
      assume k: "k \<in> set (doc_order d)"
      then have "k \<noteq> ?n" using old [of k] by auto
      then show ?thesis using old [OF k] by (auto simp: d6 n5)
    qed
  qed
  then have o7: "doc_order (set_textContent ?n msg d6) = doc_order d6"
    by (simp add: set_textContent_def filter_id_conv)
  let ?d7 = "set_textContent ?n msg d6"
  have n6: "nodes d6 k = nodes d5 k" if "k \<noteq> ?n" for k
    using that by (simp add: d6)
  have new6: "attrs (nodes d6 ?n) = attrs (nodes d5 ?n)" "classes (nodes d6 ?n) = classes (nodes d5 ?n)"
    "ancestors (nodes d6 ?n) = ancestors (nodes d a)"
    "fresh d6 = fresh d5" "timers d6 = timers d5" "activeElement d6 = activeElement d5"
    "display (nodes d6 ?n) = display (nodes d5 ?n)"
    by (simp_all add: d6)
  have n7: "nodes ?d7 k = nodes d k" if "k \<noteq> ?n" for k
    using that by (simp add: set_textContent_def n6 n5)
  have new7: "attrs (nodes ?d7 ?n) = attrs (nodes d5 ?n)" "classes (nodes ?d7 ?n) = classes (nodes d5 ?n)"
    "ancestors (nodes ?d7 ?n) = ancestors (nodes d a)" "textContent (nodes ?d7 ?n) = msg"
    "fresh ?d7 = Suc ?n" "timers ?d7 = timers d" "activeElement ?d7 = activeElement d"
    "display (nodes ?d7 ?n) = display (nodes d5 ?n)"
    by (simp_all add: set_textContent_def new6 f5 t5)
  have res: "showSubmitError refs msg d = Inr ?d7"
    using run by (simp only: d6_def)
  show ?thesis
    by (intro exI [of _ ?d7] conjI allI impI res new7 n7; (simp add: new7 new5 o7 set6)?)
qed


text \<open>The failure branch when the error element is already in the form.\<close>

lemma failure_reuse:
  fixes msg :: jsstring
  assumes old: "qs (ById (lit ''submit-error'')) (Some (form refs)) d = Some old"
    and acyclic: "old \<notin> set (ancestors (nodes d old))"
    and leaf: "childless d (submitBtn refs)"
    and neq: "old \<noteq> submitBtn refs"
  defines "d2 \<equiv> setSubmitLoading refs False (set_textContent old msg d)"
  shows "showSubmitError refs msg d = Inr (set_textContent old msg d)"
    and "qs (ById (lit ''submit-error'')) (Some (form refs)) d2 = Some old"
    and "childless d2 (submitBtn refs)"
    and "textContent (nodes d2 old) = msg"
    and "fresh d2 = fresh d"
    and "ancestors (nodes d2 k) = ancestors (nodes d k)"
    and "el_value (nodes d2 k) = el_value (nodes d k)"
proof -
  let ?d1 = "set_textContent old msg d"
  show "showSubmitError refs msg d = Inr ?d1"
    using old by (rule showSubmitError_reuse)
  have sub: "set (doc_order ?d1) \<subseteq> set (doc_order d)"
    by (auto simp: set_textContent_simps)
  have leaf1: "childless ?d1 (submitBtn refs)"
    using leaf sub by (auto simp: childless_def set_textContent_simps)
  have o2: "doc_order d2 = filter (\<lambda>m. old \<notin> set (ancestors (nodes d m))) (doc_order d)"
    unfolding d2_def by (simp add: setSubmitLoading_order [OF leaf1] set_textContent_simps)
  show "childless d2 (submitBtn refs)"
    using leaf by (auto simp: childless_def o2) (simp add: d2_def set_textContent_simps)
  have "find (\<lambda>k. in_scope d (Some (form refs)) k \<and> matches (nodes d k) (ById (lit ''submit-error'')))
          (filter (\<lambda>m. old \<notin> set (ancestors (nodes d m))) (doc_order d)) = Some old"
    using old acyclic unfolding qs_def by (rule find_filter_keep)
  then show "qs (ById (lit ''submit-error'')) (Some (form refs)) d2 = Some old"
    unfolding qs_def o2
    by (simp add: d2_def in_scope_def setSubmitLoading_attrs set_textContent_simps)
  show "textContent (nodes d2 old) = msg"
    using neq by (simp add: d2_def setSubmitLoading_text set_textContent_simps)
  show "fresh d2 = fresh d" "ancestors (nodes d2 k) = ancestors (nodes d k)"
    "el_value (nodes d2 k) = el_value (nodes d k)"
    by (simp_all add: d2_def set_textContent_simps)
qed


lemma find_None_all: "find P xs = None \<Longrightarrow> k \<in> set xs \<Longrightarrow> \<not> P k"
  by (simp add: find_None_iff)

text \<open>Without either element in the form, the failure branch throws.\<close>

lemma failure_without_actions_throws:
  assumes "qs (ById (lit ''submit-error'')) (Some (form refs)) d = None"
    and "qs (ByClass ''form-actions'') (Some (form refs)) d = None"
    and "wf_page d"
  shows "submit_resume refs Rejected d = Inl TypeError"
proof -
  let ?n = "fresh d"
  define d5 where "d5 =
    classList_add ?n ''form-error''
      (setAttribute ?n ''aria-live'' (lit ''assertive'')
        (setAttribute ?n ''role'' (lit ''alert'')
          (setAttribute ?n ''id'' (lit ''submit-error'')
            (d\<lparr>nodes := (nodes d)(?n := blank ''p''), fresh := Suc ?n\<rparr>))))"
  have o5: "doc_order d5 = doc_order d"
    by (simp add: d5_def dom_ops)
  have n5: "nodes d5 k = nodes d k" if "k \<noteq> ?n" for k
    using that by (simp add: d5_def dom_ops)
  have "qs (ByClass ''form-actions'') (Some (form refs)) d5
          = qs (ByClass ''form-actions'') (Some (form refs)) d"
    unfolding qs_def o5
  proof (intro find_cong refl)
    fix k assume "k \<in> set (doc_order d)"
    then have "k \<noteq> ?n" using assms(3) by (auto simp: wf_page_def)
    then show "(in_scope d5 (Some (form refs)) k \<and> matches (nodes d5 k) (ByClass ''form-actions''))
        = (in_scope d (Some (form refs)) k \<and> matches (nodes d k) (ByClass ''form-actions''))"
      by (simp add: in_scope_def n5)
  qed
  then have q5: "qs (ByClass ''form-actions'') (Some (form refs)) d5 = None"
    using assms(2) by simp
  have "showSubmitError refs msg d =
          (case qs (ByClass ''form-actions'') (Some (form refs)) d5 of
             None \<Rightarrow> Inl TypeError
           | Some actions \<Rightarrow> Inr (set_textContent ?n msg (insert_after actions ?n d5)))" for msg
    unfolding showSubmitError_def createElement_def d5_def Let_def assms(1) by simp
  then have "showSubmitError refs msg d = Inl TypeError" for msg
    by (simp only: q5 option.case)
  then show ?thesis
    by (simp add: submit_resume_def)
qed

lemma hid_fields:
  "field_present name_config (contact_hidden_error n e m) 2 3 1"
  "field_present email_config (contact_hidden_error n e m) 5 6 4"
  "field_present message_config (contact_hidden_error n e m) 8 9 7"
  by (simp_all add: field_present_def name_config_def email_config_def message_config_def
      childless_def qs_def in_scope_def contact_hidden_error_def page_of_def elem_def lit_eq_iff)

lemma hid_values:
  "el_value (nodes (contact_hidden_error n e m) 2) = n"
  "el_value (nodes (contact_hidden_error n e m) 5) = e"
  "el_value (nodes (contact_hidden_error n e m) 8) = m"
  by (simp_all add: contact_hidden_error_def page_of_def elem_def)

lemma hid_queries:
  "qs (ById (lit ''contact-form'')) None (contact_hidden_error n e m) = Some 0"
  "qs (ById (lit ''submit-btn'')) (Some 0) (contact_hidden_error n e m) = Some 11"
  "qs (ById (lit ''form-success'')) None (contact_hidden_error n e m) = Some 12"
  "qs (ById (lit ''submit-error'')) (Some 0) (contact_hidden_error n e m) = Some 13"
  "childless (contact_hidden_error n e m) 11"
  "ancestors (nodes (contact_hidden_error n e m) 13) = [0]"
  "not_displayed (contact_hidden_error n e m) 13"
  by (simp_all add: childless_def qs_def in_scope_def not_displayed_def getAttribute_def
      contact_hidden_error_def page_of_def elem_def lit_eq_iff)

lemma hid_expected: "spec_expected_contact_form (contact_hidden_error n e m)"
proof -
  have "el (validators f) (contact_hidden_error n e m) \<noteq> None
      \<and> errorEl (validators f) (contact_hidden_error n e m) \<noteq> None
      \<and> groupEl (validators f) (contact_hidden_error n e m) \<noteq> None" for f
    using hid_fields [of n e m] by (cases f) (simp_all add: field_present_def)
  then show ?thesis
    by (simp add: spec_expected_contact_form_def hid_queries)
qed

lemma hid_wired: "fst (initContactForm (contact_hidden_error n e m)) = Some contact_refs"
  by (simp add: initContactForm_def hid_queries contact_refs_def)

lemma hid_valid: "invalid_inputs valid_hidden_error = {}"
  by (simp add: valid_hidden_error_def invalid_inputs_present [OF hid_fields] hid_values
      validate_name_Ada validate_email_abc validate_message_long)

lemma hid_sending:
  "submit_listener contact_refs ev valid_hidden_error =
     (preventDefault ev,
      simulateSend (setSubmitLoading contact_refs True
        (validated valid_hidden_error 2 3 1 5 6 4 8 9 7)),
      AwaitingSend)"
  unfolding valid_hidden_error_def
  by (rule valid_run [OF hid_fields hid_valid [unfolded valid_hidden_error_def]])

text \<open>
  Claim C4 as stated fails, on pages that have every element the contact form is
  expected to have and hold valid values, when the send fails. On \<open>valid_plain\<close>, whose
  form has no element \<^verbatim>\<open>.form-actions\<close>, the failure branch throws a \<^verbatim>\<open>TypeError\<close> before it
  has attached the message or reset the submit control, which stays disabled with its
  busy label. On \<open>valid_hidden_error\<close>, whose form already holds a hidden element
  \<^verbatim>\<open>#submit-error\<close>, the branch completes and writes the message into that element, which
  is still not shown.
\<close>

theorem C4_failure_throws_or_message_not_shown:
  "spec_expected_contact_form valid_plain
   \<and> fst (initContactForm valid_plain) = Some plain_refs
   \<and> snd (snd (submit_listener plain_refs \<lparr>defaultPrevented = False\<rparr> valid_plain)) = AwaitingSend
   \<and> submit_resume plain_refs Rejected valid_plain_sending = Inl TypeError
   \<and> getAttribute valid_plain_sending 10 ''disabled'' \<noteq> None
   \<and> textContent (nodes valid_plain_sending 10) = lit ''Sending'' @ [8230]
   \<and> spec_expected_contact_form valid_hidden_error
   \<and> fst (initContactForm valid_hidden_error) = Some contact_refs
   \<and> snd (snd (submit_listener contact_refs \<lparr>defaultPrevented = False\<rparr> valid_hidden_error))
       = AwaitingSend
   \<and> submit_resume contact_refs Rejected valid_hidden_error_sending
       = Inr (setSubmitLoading contact_refs False
           (set_textContent 13
              (lit ''Something went wrong. Please try again or email me directly.'')
              valid_hidden_error_sending))
   \<and> textContent (nodes (setSubmitLoading contact_refs False
           (set_textContent 13
              (lit ''Something went wrong. Please try again or email me directly.'')
              valid_hidden_error_sending)) 13)
       = lit ''Something went wrong. Please try again or email me directly.''
   \<and> concealed (setSubmitLoading contact_refs False
           (set_textContent 13
              (lit ''Something went wrong. Please try again or email me directly.'')
              valid_hidden_error_sending)) 13"
proof -
  let ?msg = "lit ''Something went wrong. Please try again or email me directly.''"
  let ?p1 = "simulateSend (setSubmitLoading plain_refs True (validated valid_plain 2 3 1 5 6 4 8 9 7))"
  let ?h1 = "simulateSend (setSubmitLoading contact_refs True
        (validated valid_hidden_error 2 3 1 5 6 4 8 9 7))"
  have r: "form plain_refs = 0" "submitBtn plain_refs = 10"
    "form contact_refs = 0" "submitBtn contact_refs = 11"
    by (simp_all add: plain_refs_def contact_refs_def)
  have sp: "valid_plain_sending = ?p1"
    by (simp add: valid_plain_sending_def plain_sending)
  have sh: "valid_hidden_error_sending = ?h1"
    by (simp add: valid_hidden_error_sending_def hid_sending)
  have leaf_p: "childless valid_plain 3" "childless valid_plain 6" "childless valid_plain 9"
    "childless valid_plain (submitBtn plain_refs)"
    using plain_fields [of "lit ''Ada''" "lit ''a@b.c''" "lit ''this is long enough''"]
    by (simp_all add: valid_plain_def field_present_def r plain_queries)
  have leaf_h: "childless valid_hidden_error 3" "childless valid_hidden_error 6"
    "childless valid_hidden_error 9" "childless valid_hidden_error (submitBtn contact_refs)"
    using hid_fields [of "lit ''Ada''" "lit ''a@b.c''" "lit ''this is long enough''"]
    by (simp_all add: valid_hidden_error_def field_present_def r hid_queries)
  note fp = sending_frame [OF leaf_p, where ni = 2 and ng = 1 and ei = 5 and eg = 4
      and mi = 8 and mg = 7]
  note fh = sending_frame [OF leaf_h, where ni = 2 and ng = 1 and ei = 5 and eg = 4
      and mi = 8 and mg = 7]
  have cls: "qs (ByClass ''form-actions'') rt ?p1 = qs (ByClass ''form-actions'') rt valid_plain"
    for rt
    by (rule fp(12)) simp
  have "qs (ById (lit ''submit-error'')) (Some (form plain_refs)) ?p1 = None"
    "qs (ByClass ''form-actions'') (Some (form plain_refs)) ?p1 = None"
    "wf_page ?p1"
    unfolding fp(11) cls fp(13)
    by (simp_all add: valid_plain_def r plain_queries plain_shape)
  then have 1: "submit_resume plain_refs Rejected ?p1 = Inl TypeError"
    by (rule failure_without_actions_throws)
  have 2: "getAttribute ?p1 10 ''disabled'' \<noteq> None"
    "textContent (nodes ?p1 10) = lit ''Sending'' @ [8230]"
    by (simp_all add: getAttribute_def setSubmitLoading_attrs setSubmitLoading_text r)
  have "qs (ById (lit ''submit-error'')) (Some (form contact_refs)) ?h1 = Some 13"
    unfolding fh(11) by (simp add: valid_hidden_error_def r hid_queries)
  then have "showSubmitError contact_refs ?msg ?h1 = Inr (set_textContent 13 ?msg ?h1)"
    by (rule showSubmitError_reuse)
  then have 3: "submit_resume contact_refs Rejected ?h1
      = Inr (setSubmitLoading contact_refs False (set_textContent 13 ?msg ?h1))"
    by (simp add: submit_resume_def)
  have 4: "textContent (nodes (setSubmitLoading contact_refs False (set_textContent 13 ?msg ?h1)) 13)
      = ?msg"
    by (simp add: setSubmitLoading_text set_textContent_simps r)
  have "not_displayed ?h1 13"
    unfolding fh(3) by (simp add: valid_hidden_error_def hid_queries)
  then have 5: "concealed (setSubmitLoading contact_refs False (set_textContent 13 ?msg ?h1)) 13"
    by (simp add: concealed_def)
  have 6: "spec_expected_contact_form valid_plain"
    "fst (initContactForm valid_plain) = Some plain_refs"
    "spec_expected_contact_form valid_hidden_error"
    "fst (initContactForm valid_hidden_error) = Some contact_refs"
    by (simp_all add: valid_plain_def valid_hidden_error_def plain_expected plain_wired
        hid_expected hid_wired)
  show ?thesis
    unfolding sp sh using 1 2 3 4 5 6
    by (simp add: plain_sending hid_sending)
qed

text \<open>
  Claim C4, amended. When the send fails, on a well-formed page whose form holds the
  submit control (an element without element children) and either an element
  \<^verbatim>\<open>#submit-error\<close> or an element \<^verbatim>\<open>.form-actions\<close>, the failure branch completes without
  an exception; afterwards the form holds an element \<^verbatim>\<open>#submit-error\<close> with the message
  as its text, which is the element that was there before or else the one new element
  that was created. An element that was there is shown exactly when it was shown before:
  the branch writes its text and nothing else. A new element has no attribute \<^verbatim>\<open>hidden\<close>
  and no inline style and is placed after the first \<^verbatim>\<open>.form-actions\<close> of the form, as its
  sibling, so it is shown exactly when the elements around that one are displayed. The
  submit control is idle again (\<^verbatim>\<open>data-loading="false"\<close>, not disabled, label
  \<^verbatim>\<open>Send Message\<close>); the value of every element that existed, so of every field input, is
  what it was; and a second failure creates no element and uses the same error element.
\<close>

theorem C4_send_failure_recoverable:
  assumes wf: "wf_page d"
    and btn: "qs (ById (lit ''submit-btn'')) (Some (form refs)) d = Some (submitBtn refs)"
    and leaf: "childless d (submitBtn refs)"
    and place: "qs (ById (lit ''submit-error'')) (Some (form refs)) d \<noteq> None
              \<or> qs (ByClass ''form-actions'') (Some (form refs)) d \<noteq> None"
  shows "\<exists>d2 errEl.
           submit_resume refs Rejected d = Inr d2
         \<and> qs (ById (lit ''submit-error'')) (Some (form refs)) d2 = Some errEl
         \<and> textContent (nodes d2 errEl)
             = lit ''Something went wrong. Please try again or email me directly.''
         \<and> (case qs (ById (lit ''submit-error'')) (Some (form refs)) d of
               Some old \<Rightarrow> errEl = old \<and> fresh d2 = fresh d
                 \<and> concealed d2 errEl = concealed d old
             | None \<Rightarrow> errEl = fresh d \<and> fresh d2 = Suc (fresh d)
                 \<and> getAttribute d2 errEl ''hidden'' = None
                 \<and> display (nodes d2 errEl) = []
                 \<and> (\<forall>a. qs (ByClass ''form-actions'') (Some (form refs)) d = Some a
                       \<longrightarrow> ancestors (nodes d2 errEl) = ancestors (nodes d a)
                           \<and> concealed d2 errEl
                               = list_ex (not_displayed d) (ancestors (nodes d a))))
         \<and> getAttribute d2 (submitBtn refs) ''data-loading'' = Some (lit ''false'')
         \<and> getAttribute d2 (submitBtn refs) ''disabled'' = None
         \<and> textContent (nodes d2 (submitBtn refs)) = lit ''Send Message''
         \<and> (\<forall>k < fresh d. el_value (nodes d2 k) = el_value (nodes d k))
         \<and> (\<forall>f i. el (validators f) d = Some i \<longrightarrow> el_value (nodes d2 i) = el_value (nodes d i))
         \<and> (\<exists>d3. submit_resume refs Rejected d2 = Inr d3 \<and> fresh d3 = fresh d2
               \<and> qs (ById (lit ''submit-error'')) (Some (form refs)) d3 = Some errEl)"
proof -
  let ?msg = "lit ''Something went wrong. Please try again or email me directly.''"
  let ?se = "ById (lit ''submit-error'')"
  let ?fm = "Some (form refs)"
  let ?b = "submitBtn refs"
  have in_doc: "k < fresh d \<and> k \<notin> set (ancestors (nodes d k))
      \<and> (\<forall>a \<in> set (ancestors (nodes d k)). a < fresh d)" if "k \<in> set (doc_order d)" for k
    using wf that by (simp add: wf_page_def)
  have b_doc: "?b \<in> set (doc_order d)" using qs_ById_Some [OF btn] by simp
  have fields: "el_value (nodes d2 i) = el_value (nodes d i)"
    if "\<forall>k < fresh d. el_value (nodes d2 k) = el_value (nodes d k)" "el (validators f) d = Some i"
    for d2 f i
  proof -
    obtain x where "el (validators f) = qs (ById x) None" using validators_by_id by blast
    with that(2) have "i \<in> set (doc_order d)" using qs_ById_Some by auto
    then show ?thesis using in_doc that(1) by auto
  qed
  have idle: "getAttribute (setSubmitLoading refs False p) ?b ''data-loading'' = Some (lit ''false'')
        \<and> getAttribute (setSubmitLoading refs False p) ?b ''disabled'' = None
        \<and> textContent (nodes (setSubmitLoading refs False p) ?b) = lit ''Send Message''" for p
    by (simp add: getAttribute_def setSubmitLoading_attrs setSubmitLoading_text String_bool_def)
  have again: "\<exists>d3. submit_resume refs Rejected d2 = Inr d3 \<and> fresh d3 = fresh d2
               \<and> qs ?se ?fm d3 = Some x"
    if "qs ?se ?fm d2 = Some x" "x \<notin> set (ancestors (nodes d2 x))" "childless d2 ?b" "x \<noteq> ?b"
    for d2 x
    using failure_reuse(1,2,5) [OF that, of ?msg]
    by (simp add: submit_resume_def)
  show ?thesis
  proof (cases "qs ?se ?fm d")
    case (Some old)
    let ?d2 = "setSubmitLoading refs False (set_textContent old ?msg d)"
    have o: "old \<in> set (doc_order d)" using qs_ById_Some [OF Some] by simp
    have ac: "old \<notin> set (ancestors (nodes d old))" using in_doc [OF o] by simp
    have ne: "old \<noteq> ?b" using qs_id_neq [OF Some btn] by (simp add: lit_eq_iff)
    note r = failure_reuse [OF Some ac leaf ne, of ?msg]
    have run: "submit_resume refs Rejected d = Inr ?d2"
      by (simp add: submit_resume_def r(1))
    have vals: "\<forall>k < fresh d. el_value (nodes ?d2 k) = el_value (nodes d k)"
      by (simp add: set_textContent_simps)
    have "\<exists>d3. submit_resume refs Rejected ?d2 = Inr d3 \<and> fresh d3 = fresh ?d2
               \<and> qs ?se ?fm d3 = Some old"
      using again [OF r(2) _ r(3) ne] ac by (simp add: set_textContent_simps)
    moreover have "concealed ?d2 old = concealed d old"
      by simp
    ultimately show ?thesis
      using run r(2,4,5) idle [of "set_textContent old ?msg d"] vals fields [OF vals] Some
      by (intro exI [of _ ?d2] exI [of _ old]) simp
  next
    case None
    with place obtain a where a: "qs (ByClass ''form-actions'') ?fm d = Some a" by auto
    obtain d1 where d1: "showSubmitError refs ?msg d = Inr d1"
      "fresh d1 = Suc (fresh d)" "\<And>k. k \<noteq> fresh d \<Longrightarrow> nodes d1 k = nodes d k"
      "attrs (nodes d1 (fresh d)) ''id'' = Some (lit ''submit-error'')"
      "textContent (nodes d1 (fresh d)) = ?msg"
      "ancestors (nodes d1 (fresh d)) = ancestors (nodes d a)"
      "set (doc_order d1) = insert (fresh d) (set (doc_order d))"
      "attrs (nodes d1 (fresh d)) ''hidden'' = None"
      "display (nodes d1 (fresh d)) = []"
      using showSubmitError_create [OF None a wf, of ?msg] by blast
    let ?n = "fresh d"
    let ?d2 = "setSubmitLoading refs False d1"
    have a_doc: "a \<in> set (doc_order d)" and a_scope: "form refs \<in> set (ancestors (nodes d a))"
      using find_Some_props [OF a [unfolded qs_def]] by (simp_all add: in_scope_def)
    have b_neq: "?b \<noteq> ?n" using in_doc [OF b_doc] by auto
    have anc1: "ancestors (nodes d1 k) = (if k = ?n then ancestors (nodes d a) else ancestors (nodes d k))" for k
      by (simp add: d1)
    have leaf1: "childless d1 ?b"
      using leaf a_doc by (auto simp: childless_def d1(7) anc1)
    have o2: "doc_order ?d2 = doc_order d1" by (rule setSubmitLoading_order [OF leaf1])
    have leaf2: "childless ?d2 ?b"
      using leaf1 by (simp add: childless_def o2)
    have run: "submit_resume refs Rejected d = Inr ?d2"
      by (simp add: submit_resume_def d1(1))
    have found: "qs ?se ?fm ?d2 = Some ?n"
      unfolding qs_def o2
    proof (rule find_unique)
      show "?n \<in> set (doc_order d1)" by (simp add: d1(7))
      show "in_scope ?d2 ?fm ?n \<and> matches (nodes ?d2 ?n) ?se"
        using a_scope by (simp add: in_scope_def setSubmitLoading_attrs d1)
    next
      fix k assume k: "k \<in> set (doc_order d1)"
        and P: "in_scope ?d2 ?fm k \<and> matches (nodes ?d2 k) ?se"
      show "k = ?n"
      proof (rule ccontr)
        assume "k \<noteq> ?n"
        with k have kd: "k \<in> set (doc_order d)" by (simp add: d1(7))
        have "\<not> (in_scope d ?fm k \<and> matches (nodes d k) ?se)"
          using find_None_all [OF None [unfolded qs_def] kd] .
        with P \<open>k \<noteq> ?n\<close> show False
          by (simp add: in_scope_def setSubmitLoading_attrs d1(3))
      qed
    qed
    have shown: "textContent (nodes ?d2 ?n) = ?msg"
      using b_neq by (simp add: setSubmitLoading_text d1(5))
    have vals: "\<forall>k < fresh d. el_value (nodes ?d2 k) = el_value (nodes d k)"
      by (simp add: d1(3))
    have ac: "?n \<notin> set (ancestors (nodes ?d2 ?n))"
      using in_doc [OF a_doc] by (auto simp: anc1)
    have "\<exists>d3. submit_resume refs Rejected ?d2 = Inr d3 \<and> fresh d3 = fresh ?d2
               \<and> qs ?se ?fm d3 = Some ?n"
      using again [OF found ac leaf2] b_neq by simp
    moreover have newly: "getAttribute ?d2 ?n ''hidden'' = None" "display (nodes ?d2 ?n) = []"
      "ancestors (nodes ?d2 ?n) = ancestors (nodes d a)"
      using b_neq by (simp_all add: getAttribute_def setSubmitLoading_attrs d1(8,9) anc1)
    moreover have vis: "concealed ?d2 ?n = list_ex (not_displayed d) (ancestors (nodes d a))"
    proof -
      have nd: "not_displayed d1 x = (if x = ?n then False else not_displayed d x)" for x
        by (simp add: not_displayed_def getAttribute_def d1(3,8,9))
      have "\<forall>x \<in> set (ancestors (nodes d a)). x \<noteq> ?n"
        using in_doc [OF a_doc] by auto
      then show ?thesis
        by (simp add: concealed_def list_ex_iff anc1 nd)
    qed
    ultimately show ?thesis
      using run found shown idle [of d1] vals fields [OF vals] None d1(2) a
      by (intro exI [of _ ?d2] exI [of _ ?n]) simp
  qed
qed


lemma ex_wf: "wf_page (contact_example n e m)"
  by (simp add: wf_page_def contact_example_def page_of_def elem_def)

lemma ex_no_error_element:
  "qs (ById (lit ''submit-error'')) (Some 0) (contact_example n e m) = None"
  "qs (ByClass ''form-actions'') (Some 0) (contact_example n e m) = Some 10"
  "fresh (contact_example n e m) = 13"
  by (simp_all add: qs_def in_scope_def contact_example_def page_of_def elem_def lit_eq_iff)

lemma ex_actions_shown:
  "ancestors (nodes (contact_example n e m) 10) = [0]"
  "\<not> not_displayed (contact_example n e m) 0"
  by (simp_all add: not_displayed_def getAttribute_def contact_example_def page_of_def elem_def)

theorem C4_send_failure_recoverable_witness:
  "\<exists>d2. submit_resume contact_refs Rejected
           (contact_example (lit ''Ada'') (lit ''a@b.c'') (lit ''this is long enough'')) = Inr d2
        \<and> qs (ById (lit ''submit-error'')) (Some 0) d2 = Some 13
        \<and> textContent (nodes d2 13)
            = lit ''Something went wrong. Please try again or email me directly.''
        \<and> fresh d2 = 14
        \<and> \<not> concealed d2 13
        \<and> getAttribute d2 11 ''data-loading'' = Some (lit ''false'')
        \<and> getAttribute d2 11 ''disabled'' = None
        \<and> textContent (nodes d2 11) = lit ''Send Message''
        \<and> el_value (nodes d2 2) = lit ''Ada''
        \<and> el_value (nodes d2 5) = lit ''a@b.c''
        \<and> el_value (nodes d2 8) = lit ''this is long enough''
        \<and> (\<exists>d3. submit_resume contact_refs Rejected d2 = Inr d3 \<and> fresh d3 = 14
              \<and> qs (ById (lit ''submit-error'')) (Some 0) d3 = Some 13)"
proof -
  let ?p = "contact_example (lit ''Ada'') (lit ''a@b.c'') (lit ''this is long enough'')"
  have r: "form contact_refs = 0" "submitBtn contact_refs = 11"
    by (simp_all add: contact_refs_def)
  have b: "qs (ById (lit ''submit-btn'')) (Some (form contact_refs)) ?p = Some (submitBtn contact_refs)"
    and l: "childless ?p (submitBtn contact_refs)"
    and pl: "qs (ById (lit ''submit-error'')) (Some (form contact_refs)) ?p \<noteq> None
              \<or> qs (ByClass ''form-actions'') (Some (form contact_refs)) ?p \<noteq> None"
    by (simp_all add: r ex_button ex_contract ex_no_error_element)
  obtain d2 errEl where d2:
    "submit_resume contact_refs Rejected ?p = Inr d2"
    "qs (ById (lit ''submit-error'')) (Some 0) d2 = Some errEl"
    "textContent (nodes d2 errEl) = lit ''Something went wrong. Please try again or email me directly.''"
    "errEl = 13 \<and> fresh d2 = 14 \<and> \<not> concealed d2 errEl"
    "getAttribute d2 11 ''data-loading'' = Some (lit ''false'')"
    "getAttribute d2 11 ''disabled'' = None"
    "textContent (nodes d2 11) = lit ''Send Message''"
    "\<forall>k < 13. el_value (nodes d2 k) = el_value (nodes ?p k)"
    "\<exists>d3. submit_resume contact_refs Rejected d2 = Inr d3 \<and> fresh d3 = fresh d2
        \<and> qs (ById (lit ''submit-error'')) (Some 0) d3 = Some errEl"
    using C4_send_failure_recoverable [OF ex_wf b l pl]
    unfolding r ex_no_error_element by (auto simp: ex_no_error_element ex_actions_shown)
  have v: "el_value (nodes d2 2) = lit ''Ada''" "el_value (nodes d2 5) = lit ''a@b.c''"
    "el_value (nodes d2 8) = lit ''this is long enough''"
    using d2(8) by (simp_all add: ex_values)
  show ?thesis
    using d2(1-7,9) v by (intro exI [of _ d2]) auto
qed

subsection \<open>Experience accordion\<close>

lemma close_others_open:
  "is_open (foldl (\<lambda>d1 other. if other \<noteq> n \<and> is_open d1 other
                               then removeAttribute other ''open'' d1 else d1) d els) k
     = (is_open d k \<and> (k \<notin> set els \<or> k = n))"
proof (induction els arbitrary: d)
  case Nil
  then show ?case by simp
next
  case (Cons x xs)
  then show ?case
    by (auto simp: is_open_def getAttribute_def removeAttribute_def)
qed

lemma accordion_toggle_open:
  "is_open (accordion_toggle els n d) k
     = (is_open d k \<and> (\<not> is_open d n \<or> k \<notin> set els \<or> k = n))"
  by (simp add: accordion_toggle_def close_others_open)

lemma syncAria_open: "is_open (syncAria sm n d) k = is_open d k"
  by (simp add: syncAria_def is_open_def getAttribute_def setAttribute_def)

lemma on_toggle_open:
  "is_open (on_toggle els n sm d) k
     = (is_open d k \<and> (\<not> is_open d n \<or> k \<notin> set els \<or> k = n))"
  by (cases sm) (simp_all add: on_toggle_def syncAria_open accordion_toggle_open)

lemma user_toggle_open:
  "is_open (user_toggle n d) k = (if k = n then \<not> is_open d n else is_open d k)"
  by (simp add: user_toggle_def is_open_def getAttribute_def setAttribute_def removeAttribute_def)

lemma open_entries_finite: "finite (open_entries els d)"
  by (simp add: open_entries_def)

text \<open>
  Claim C6. Let \<open>els\<close> be the entries the accordion captured and \<open>n\<close> one of them. When the
  user opens \<open>n\<close> and its \<^verbatim>\<open>toggle\<close> listeners have run, \<open>n\<close> is the only open entry,
  whatever was open before: every other entry that was open has lost its \<^verbatim>\<open>open\<close>
  attribute. When the user closes \<open>n\<close>, the other entries stay as they were. Hence a
  user toggle followed by the listeners keeps the invariant that at most one entry is
  open, and the listeners alone (as on the \<^verbatim>\<open>toggle\<close> events of the entries that were
  closed) never open an entry.
\<close>

theorem C6_accordion_at_most_one_open:
  assumes "n \<in> set els"
  shows "(\<not> is_open d n \<longrightarrow>
            open_entries els (on_toggle els n sm (user_toggle n d)) = {n})
       \<and> (is_open d n \<longrightarrow>
            open_entries els (on_toggle els n sm (user_toggle n d)) = open_entries els d - {n})
       \<and> (card (open_entries els d) \<le> 1 \<longrightarrow>
            card (open_entries els (on_toggle els n sm (user_toggle n d))) \<le> 1)
       \<and> (\<forall>a \<in> set els. a \<noteq> n \<and> is_open d a \<and> \<not> is_open d n \<longrightarrow>
            \<not> is_open (on_toggle els n sm (user_toggle n d)) a
            \<and> is_open (on_toggle els n sm (user_toggle n d)) n)
       \<and> open_entries els (on_toggle els k sk d) \<subseteq> open_entries els d"
proof -
  let ?s = "on_toggle els n sm (user_toggle n d)"
  have when_opened: "open_entries els ?s = {n}" if "\<not> is_open d n"
    using that assms by (auto simp: open_entries_def on_toggle_open user_toggle_open)
  have when_closed: "open_entries els ?s = open_entries els d - {n}" if "is_open d n"
    using that by (auto simp: open_entries_def on_toggle_open user_toggle_open)
  have inv: "card (open_entries els ?s) \<le> 1" if "card (open_entries els d) \<le> 1"
  proof (cases "is_open d n")
    case True
    have "card (open_entries els d - {n}) \<le> card (open_entries els d)"
      by (rule card_mono [OF open_entries_finite]) auto
    with that show ?thesis by (simp add: when_closed [OF True])
  next
    case False
    then show ?thesis by (simp add: when_opened)
  qed
  have pair: "\<forall>a \<in> set els. a \<noteq> n \<and> is_open d a \<and> \<not> is_open d n \<longrightarrow>
            \<not> is_open ?s a \<and> is_open ?s n"
    by (auto simp: on_toggle_open user_toggle_open)
  have quiet: "open_entries els (on_toggle els k sk d) \<subseteq> open_entries els d"
    by (auto simp: open_entries_def on_toggle_open)
  show ?thesis using when_opened when_closed inv pair quiet by blast
qed

lemma accordion_example_entries:
  "qsa (ByClass ''experience-details'') None accordion_example = [0, 2, 4]"
  "qs (ByTag ''summary'') (Some 2) accordion_example = Some 3"
  "is_open accordion_example 0" "\<not> is_open accordion_example 2" "\<not> is_open accordion_example 4"
  by (simp_all add: qsa_def qs_def in_scope_def is_open_def getAttribute_def accordion_example_def
      page_of_def elem_def)

theorem C6_accordion_at_most_one_open_witness:
  "open_entries [0, 2, 4] accordion_example = {0}
   \<and> open_entries [0, 2, 4] (on_toggle [0, 2, 4] 2 (Some 3) (user_toggle 2 accordion_example)) = {2}
   \<and> \<not> is_open (on_toggle [0, 2, 4] 2 (Some 3) (user_toggle 2 accordion_example)) 0
   \<and> is_open (on_toggle [0, 2, 4] 2 (Some 3) (user_toggle 2 accordion_example)) 2"
proof -
  have m: "(2::nat) \<in> set [0, 2, 4]" by simp
  have o: "open_entries [0, 2, 4] accordion_example = {0}"
    using accordion_example_entries(3-5) by (auto simp: open_entries_def)
  show ?thesis
    using C6_accordion_at_most_one_open [OF m, of accordion_example "Some 3"]
      accordion_example_entries(3-5) o
    by simp
qed


subsection \<open>Skill filter\<close>

lemma filter_item_eq:
  "filter_item v (d, c) x =
     (if filter_match v d x then (removeAttribute x ''data-hidden'' d, Suc c)
      else (setAttribute x ''data-hidden'' (lit ''true'') d, c))"
  by (simp add: filter_item_def filter_match_def Let_def)

lemma filter_item_display_eq:
  "filter_item_display v (d, c) x =
     (if filter_match v d x then (set_display x [] d, Suc c)
      else (set_display x (lit ''none'') d, c))"
  by (simp add: filter_item_display_def filter_match_def Let_def)

lemma filter_match_frame:
  "filter_match v (removeAttribute x ''data-hidden'' d) k = filter_match v d k"
  "filter_match v (setAttribute x ''data-hidden'' t d) k = filter_match v d k"
  "filter_match v (set_display x s d) k = filter_match v d k"
  "filter_match v (set_hidden x b d) k = filter_match v d k"
  by (simp_all add: filter_match_def getAttribute_def setAttribute_def removeAttribute_def
      set_display_def set_hidden_attrs)

lemma attr_ops:
  "attrs (nodes (setAttribute n a t d) k) key
     = (if k = n \<and> key = a then Some t else attrs (nodes d k) key)"
  "attrs (nodes (removeAttribute n a d) k) key
     = (if k = n \<and> key = a then None else attrs (nodes d k) key)"
  "attrs (nodes (set_display n s d) k) = attrs (nodes d k)"
  "display (nodes (set_display n s d) k) = (if k = n then s else display (nodes d k))"
  by (simp_all add: setAttribute_def removeAttribute_def set_display_def)

lemma filter_loop:
  "foldl (filter_item v) (d, c) items = (d1, c1)
   \<Longrightarrow> c1 = c + length (filter (filter_match v d) items)
     \<and> (\<forall>k key. attrs (nodes d1 k) key =
           (if k \<in> set items \<and> key = ''data-hidden''
            then (if filter_match v d k then None else Some (lit ''true''))
            else attrs (nodes d k) key))"
proof (induction items arbitrary: d c)
  case Nil
  then show ?case by simp
next
  case (Cons x xs)
  show ?case
  proof (cases "filter_match v d x")
    case True
    with Cons.prems have "foldl (filter_item v) (removeAttribute x ''data-hidden'' d, Suc c) xs = (d1, c1)"
      by (simp add: filter_item_eq)
    from Cons.IH [OF this] True show ?thesis
      by (auto simp: filter_match_frame attr_ops)
  next
    case False
    with Cons.prems have "foldl (filter_item v) (setAttribute x ''data-hidden'' (lit ''true'') d, c) xs = (d1, c1)"
      by (simp add: filter_item_eq)
    from Cons.IH [OF this] False show ?thesis
      by (auto simp: filter_match_frame attr_ops)
  qed
qed

lemma filter_loop_display:
  "foldl (filter_item_display v) (d, c) items = (d1, c1)
   \<Longrightarrow> c1 = c + length (filter (filter_match v d) items)
     \<and> (\<forall>k. display (nodes d1 k) =
           (if k \<in> set items then (if filter_match v d k then [] else lit ''none'')
            else display (nodes d k)))
     \<and> (\<forall>k. attrs (nodes d1 k) = attrs (nodes d k))"
proof (induction items arbitrary: d c)
  case Nil
  then show ?case by simp
next
  case (Cons x xs)
  show ?case
  proof (cases "filter_match v d x")
    case True
    with Cons.prems have "foldl (filter_item_display v) (set_display x [] d, Suc c) xs = (d1, c1)"
      by (simp add: filter_item_display_eq)
    from Cons.IH [OF this] True show ?thesis
      by (auto simp: filter_match_frame attr_ops)
  next
    case False
    with Cons.prems have "foldl (filter_item_display v) (set_display x (lit ''none'') d, c) xs = (d1, c1)"
      by (simp add: filter_item_display_eq)
    from Cons.IH [OF this] False show ?thesis
      by (auto simp: filter_match_frame attr_ops)
  qed
qed

lemma no_match_count:
  "(filter P xs \<noteq> []) = (\<exists>i \<in> set xs. P i)"
  by (simp add: filter_empty_conv)


lemma applyFilter_result:
  "\<exists>d1. foldl (filter_item v) (d, 0) (skillItems refs)
           = (d1, length (filter (filter_match v d) (skillItems refs)))
        \<and> (\<forall>k key. attrs (nodes d1 k) key =
              (if k \<in> set (skillItems refs) \<and> key = ''data-hidden''
               then (if filter_match v d k then None else Some (lit ''true''))
               else attrs (nodes d k) key))
        \<and> applyFilter refs v d =
            (case emptyState refs of None \<Rightarrow> d1
             | Some e \<Rightarrow> set_hidden e (\<exists>i \<in> set (skillItems refs). filter_match v d i) d1)"
proof -
  obtain d1 c1 where f: "foldl (filter_item v) (d, 0) (skillItems refs) = (d1, c1)"
    by fastforce
  from filter_loop [OF f] show ?thesis
    by (intro exI [of _ d1]) (simp add: f applyFilter_def no_match_count split: option.splits)
qed

lemma applyFilter_display_result:
  "\<exists>d1. (\<forall>k. display (nodes d1 k) =
              (if k \<in> set (skillItems refs) then (if filter_match v d k then [] else lit ''none'')
               else display (nodes d k)))
        \<and> (\<forall>k. attrs (nodes d1 k) = attrs (nodes d k))
        \<and> applyFilter_display refs v d =
            (case emptyState refs of None \<Rightarrow> d1
             | Some e \<Rightarrow> set_hidden e (\<exists>i \<in> set (skillItems refs). filter_match v d i) d1)"
proof -
  obtain d1 c1 where f: "foldl (filter_item_display v) (d, 0) (skillItems refs) = (d1, c1)"
    by fastforce
  from filter_loop_display [OF f] show ?thesis
    by (intro exI [of _ d1]) (simp add: f applyFilter_display_def no_match_count split: option.splits)
qed

text \<open>
  Claim C8. For every filter value (the \<^verbatim>\<open>data-filter\<close> of the control, a string or
  null), after \<open>applyFilter\<close> an item of the captured list carries no \<^verbatim>\<open>data-hidden\<close>
  attribute exactly when the filter is \<^verbatim>\<open>all\<close> or equals the item's \<^verbatim>\<open>data-category\<close>, and
  \<^verbatim>\<open>data-hidden="true"\<close> otherwise; after \<open>applyFilter_display\<close> its \<^verbatim>\<open>style.display\<close> is
  empty in the first case and \<^verbatim>\<open>none\<close> otherwise. With both functions the empty-state
  element, when the page has one, is without the \<^verbatim>\<open>hidden\<close> attribute exactly when no item
  matches.
\<close>

theorem C8_filter_shows_matching_items:
  "(\<forall>i \<in> set (skillItems refs).
      getAttribute (applyFilter refs v d) i ''data-hidden''
        = (if v = Some (lit ''all'') \<or> getAttribute d i ''data-category'' = v then None
           else Some (lit ''true'')))
   \<and> (\<forall>e. emptyState refs = Some e \<longrightarrow>
         (getAttribute (applyFilter refs v d) e ''hidden'' = None)
           = (\<forall>i \<in> set (skillItems refs). \<not> filter_match v d i))
   \<and> (\<forall>i \<in> set (skillItems refs).
         display (nodes (applyFilter_display refs v d) i)
           = (if v = Some (lit ''all'') \<or> getAttribute d i ''data-category'' = v then []
              else lit ''none''))
   \<and> (\<forall>e. emptyState refs = Some e \<longrightarrow>
         (getAttribute (applyFilter_display refs v d) e ''hidden'' = None)
           = (\<forall>i \<in> set (skillItems refs). \<not> filter_match v d i))"
proof -
  obtain d1 where d1:
    "\<forall>k key. attrs (nodes d1 k) key =
              (if k \<in> set (skillItems refs) \<and> key = ''data-hidden''
               then (if filter_match v d k then None else Some (lit ''true''))
               else attrs (nodes d k) key)"
    "applyFilter refs v d =
            (case emptyState refs of None \<Rightarrow> d1
             | Some e \<Rightarrow> set_hidden e (\<exists>i \<in> set (skillItems refs). filter_match v d i) d1)"
    using applyFilter_result [of v d refs] by blast
  obtain d2 where d2:
    "\<forall>k. display (nodes d2 k) =
              (if k \<in> set (skillItems refs) then (if filter_match v d k then [] else lit ''none'')
               else display (nodes d k))"
    "applyFilter_display refs v d =
            (case emptyState refs of None \<Rightarrow> d2
             | Some e \<Rightarrow> set_hidden e (\<exists>i \<in> set (skillItems refs). filter_match v d i) d2)"
    using applyFilter_display_result [of refs v d] by blast
  have 1: "\<forall>i \<in> set (skillItems refs).
      getAttribute (applyFilter refs v d) i ''data-hidden''
        = (if v = Some (lit ''all'') \<or> getAttribute d i ''data-category'' = v then None
           else Some (lit ''true''))"
    using d1(1) by (cases "emptyState refs")
      (simp_all add: d1(2) getAttribute_def set_hidden_attrs filter_match_def)
  have 2: "\<forall>e. emptyState refs = Some e \<longrightarrow>
         (getAttribute (applyFilter refs v d) e ''hidden'' = None)
           = (\<forall>i \<in> set (skillItems refs). \<not> filter_match v d i)"
    by (auto simp: d1(2) getAttribute_def set_hidden_attrs)
  have 3: "\<forall>i \<in> set (skillItems refs).
         display (nodes (applyFilter_display refs v d) i)
           = (if v = Some (lit ''all'') \<or> getAttribute d i ''data-category'' = v then []
              else lit ''none'')"
    using d2(1) by (cases "emptyState refs") (simp_all add: d2(2) filter_match_def getAttribute_def)
  have 4: "\<forall>e. emptyState refs = Some e \<longrightarrow>
         (getAttribute (applyFilter_display refs v d) e ''hidden'' = None)
           = (\<forall>i \<in> set (skillItems refs). \<not> filter_match v d i)"
    by (auto simp: d2(2) getAttribute_def set_hidden_attrs)
  show ?thesis using 1 2 3 4 by blast
qed

lemma skills_categories:
  "getAttribute skills_example 5 ''data-category'' = Some (lit ''design'')"
  "getAttribute skills_example 6 ''data-category'' = Some (lit ''code'')"
  "getAttribute skills_example 7 ''data-category'' = Some (lit ''design'')"
  "skillItems skills_refs = [5, 6, 7]" "emptyState skills_refs = Some 8"
  by (simp_all add: getAttribute_def skills_example_def skills_refs_def page_of_def elem_def)

theorem C8_filter_shows_matching_items_witness:
  "getAttribute (applyFilter skills_refs (Some (lit ''design'')) skills_example) 5 ''data-hidden'' = None
   \<and> getAttribute (applyFilter skills_refs (Some (lit ''design'')) skills_example) 6 ''data-hidden''
       = Some (lit ''true'')
   \<and> getAttribute (applyFilter skills_refs (Some (lit ''design'')) skills_example) 8 ''hidden'' \<noteq> None
   \<and> getAttribute (applyFilter skills_refs (Some (lit ''all'')) skills_example) 6 ''data-hidden'' = None
   \<and> getAttribute (applyFilter skills_refs (Some (lit ''ops'')) skills_example) 8 ''hidden'' = None
   \<and> display (nodes (applyFilter_display skills_refs (Some (lit ''design'')) skills_example) 6)
       = lit ''none''
   \<and> display (nodes (applyFilter_display skills_refs (Some (lit ''design'')) skills_example) 7) = []
   \<and> getAttribute (applyFilter_display skills_refs (Some (lit ''ops'')) skills_example) 8 ''hidden''
       = None"
  using C8_filter_shows_matching_items [of skills_refs "Some (lit ''design'')" skills_example]
    C8_filter_shows_matching_items [of skills_refs "Some (lit ''all'')" skills_example]
    C8_filter_shows_matching_items [of skills_refs "Some (lit ''ops'')" skills_example]
  by (simp add: skills_categories filter_match_def lit_eq_iff)


subsection \<open>Section highlight\<close>

lemma nav_example_init:
  "fst (initNavHighlight nav_example) = Some nav_example_state"
  by (simp add: initNavHighlight_def qsa_def in_scope_def nav_example_def page_of_def elem_def
      nav_example_state_def element_id_def lit_eq_iff Let_def)

lemma setActive_activeId: "activeId (fst (setActive k (st, d))) = Some k"
  by (simp add: setActive_def)

lemma nav_example_ids:
  "element_id nav_example 2 = lit ''a''" "element_id nav_example 3 = lit ''b''"
  by (simp_all add: element_id_def nav_example_def page_of_def elem_def)

lemma setActive_ids: "element_id (snd (setActive k (st, d))) n = element_id d n"
proof -
  have "attrs (nodes (foldl (\<lambda>d1 link.
                       (let isActive = (getAttribute d1 link ''data-section'' = Some i)
                        in setAttribute link ''aria-current''
                             (if isActive then lit ''true'' else lit ''false'')
                             (classList_toggle link ''is-active'' isActive d1)))
                d links) n) ''id'' = attrs (nodes d n) ''id''" for i links d
    by (induction links arbitrary: d)
      (simp_all add: Let_def setAttribute_def classList_toggle_def classList_add_def
        classList_remove_def)
  then show ?thesis
    by (simp add: setActive_def element_id_def)
qed

lemma first_callback:
  "activeId (fst (observer_callback [(3, 1/4)] (nav_example_state, nav_example))) = Some (lit ''b'')"
  "ratioMap (fst (observer_callback [(3, 1/4)] (nav_example_state, nav_example)))
     = [(lit ''a'', 0), (lit ''b'', 1/4)]"
  by (simp_all add: observer_callback_def record_entries_def nav_example_ids nav_example_state_def
      lit_eq_iff top_section_def setActive_def Let_def)


lemma observer_callback_ids:
  "element_id (snd (observer_callback entries (st, d))) n = element_id d n"
  by (simp add: observer_callback_def Let_def setActive_ids split: option.splits)

lemma observer_callback_state:
  "fst (observer_callback entries (st, d)) =
     (let st1 = st\<lparr>ratioMap := record_entries d entries (ratioMap st)\<rparr>
      in case fst (top_section (ratioMap st1)) of
           None \<Rightarrow> st1
         | Some topId \<Rightarrow> if topId \<noteq> [] then fst (setActive topId (st1, d)) else st1)"
  by (simp add: observer_callback_def Let_def split: option.splits)

text \<open>
  Claim C7 as stated fails. On the example page the section \<^verbatim>\<open>b\<close> is active after a first
  callback; a second callback in which both sections report the ratio 1/2 (equal, above
  zero, the maximum) makes \<^verbatim>\<open>a\<close> the active section: the previously active section does
  not remain active, and the active entry has changed although no ratio strictly
  exceeds all others.
\<close>

theorem C7_tie_switches_active_section:
  "activeId (fst (observer_callback [(3, 1/4)] (nav_example_state, nav_example))) = Some (lit ''b'')
   \<and> ratioMap (fst (observer_callback [(2, 1/2), (3, 1/2)]
        (observer_callback [(3, 1/4)] (nav_example_state, nav_example))))
       = [(lit ''a'', 1/2), (lit ''b'', 1/2)]
   \<and> activeId (fst (observer_callback [(2, 1/2), (3, 1/2)]
        (observer_callback [(3, 1/4)] (nav_example_state, nav_example))))
       = Some (lit ''a'')
   \<and> lit ''a'' \<noteq> lit ''b''"
proof -
  obtain st1 d1 where c1: "observer_callback [(3, 1/4)] (nav_example_state, nav_example) = (st1, d1)"
    by fastforce
  have s1: "activeId st1 = Some (lit ''b'')" "ratioMap st1 = [(lit ''a'', 0), (lit ''b'', 1/4)]"
    using first_callback by (simp_all add: c1)
  have ids: "element_id d1 2 = lit ''a''" "element_id d1 3 = lit ''b''"
    using observer_callback_ids [of "[(3, 1/4)]" nav_example_state nav_example]
    by (simp_all add: c1 nav_example_ids)
  have rm: "record_entries d1 [(2, 1/2), (3, 1/2)] [(lit ''a'', 0), (lit ''b'', 1/4)]
      = [(lit ''a'', 1/2), (lit ''b'', 1/2)]"
    by (simp add: record_entries_def ids lit_eq_iff)
  have top: "top_section [(lit ''a'', 1/2), (lit ''b'', 1/2)] = (Some (lit ''a''), 1/2)"
    by (simp add: top_section_def)
  have "activeId (fst (observer_callback [(2, 1/2), (3, 1/2)] (st1, d1))) = Some (lit ''a'')"
    "ratioMap (fst (observer_callback [(2, 1/2), (3, 1/2)] (st1, d1)))
       = [(lit ''a'', 1/2), (lit ''b'', 1/2)]"
    by (simp_all add: observer_callback_state rm top Let_def setActive_def s1 lit_eq_iff)
  then show ?thesis
    using s1(1) by (simp add: c1 lit_eq_iff)
qed

subsection \<open>What the tracker does on a tie\<close>

lemma top_section_keep:
  "\<forall>(i, x) \<in> set m. x \<le> (tr::real) \<Longrightarrow>
     foldl (\<lambda>(topId, topRatio) (i, ratio).
              if ratio > topRatio then (Some i, ratio) else (topId, topRatio)) (ti, tr) m
       = (ti, tr)"
  by (induction m arbitrary: ti tr) auto

lemma top_section_below:
  "\<forall>(i, x) \<in> set m. x < (r::real) \<Longrightarrow> tr < r \<Longrightarrow>
     snd (foldl (\<lambda>(topId, topRatio) (i, ratio).
              if ratio > topRatio then (Some i, ratio) else (topId, topRatio)) (ti, tr) m) < r"
  by (induction m arbitrary: ti tr) auto

lemma top_section_first_max:
  assumes "0 < r" and "\<forall>(i, x) \<in> set pre. x < r" and "\<forall>(i, x) \<in> set post. x \<le> r"
  shows "top_section (pre @ (k, r) # post) = (Some k, r)"
proof -
  let ?step = "\<lambda>(topId, topRatio) (i, ratio). if ratio > topRatio then (Some i, ratio) else (topId, topRatio)"
  obtain t x where p: "foldl ?step (None, 0) pre = (t, x)" by fastforce
  have "x < r" using top_section_below [OF assms(2) assms(1), of None] p by simp
  then have "foldl ?step (None, 0) (pre @ [(k, r)]) = (Some k, r)"
    by (simp add: p)
  then have "foldl ?step (None, 0) (pre @ (k, r) # post) = foldl ?step (Some k, r) post"
    by simp
  also have "\<dots> = (Some k, r)" using assms(3) by (rule top_section_keep)
  finally show ?thesis by (simp add: top_section_def)
qed

lemma top_section_none:
  assumes "\<forall>(i, x) \<in> set m. x \<le> 0"
  shows "top_section m = (None, 0)"
  unfolding top_section_def using assms by (rule top_section_keep)


text \<open>
  Claim C7, amended. After the observer's callback, when the largest recorded ratio is
  above zero, the active section is the first section in the order of the ratio map
  (the document order of the sections) that has the largest ratio, provided its id is not
  empty: every section before it has a strictly smaller ratio, no section after it a
  larger one. So when two sections tie at the maximum, the earlier of the two becomes or
  stays active, and the previously active section remains active only if it is that one.
  When no recorded ratio is above zero the active section does not change.
\<close>

theorem C7_first_section_at_maximum_is_active:
  "(record_entries d entries (ratioMap st) = pre @ (k, r) # post
      \<and> 0 < r \<and> (\<forall>(i, x) \<in> set pre. x < r) \<and> (\<forall>(i, x) \<in> set post. x \<le> r) \<and> k \<noteq> []
    \<longrightarrow> activeId (fst (observer_callback entries (st, d))) = Some k)
   \<and> ((\<forall>(i, x) \<in> set (record_entries d entries (ratioMap st)). x \<le> 0)
    \<longrightarrow> activeId (fst (observer_callback entries (st, d))) = activeId st)"
proof -
  have 1: "activeId (fst (observer_callback entries (st, d))) = Some k"
    if "record_entries d entries (ratioMap st) = pre @ (k, r) # post" "0 < r"
      "\<forall>(i, x) \<in> set pre. x < r" "\<forall>(i, x) \<in> set post. x \<le> r" "k \<noteq> []"
    using that(5)
    by (simp add: observer_callback_state that(1) top_section_first_max [OF that(2-4)]
        setActive_activeId)
  have 2: "activeId (fst (observer_callback entries (st, d))) = activeId st"
    if "\<forall>(i, x) \<in> set (record_entries d entries (ratioMap st)). x \<le> 0"
    by (simp add: observer_callback_state top_section_none [OF that])
  show ?thesis using 1 2 by blast
qed

lemma first_callback_a:
  "activeId (fst (observer_callback [(2, 1/4)] (nav_example_state, nav_example))) = Some (lit ''a'')"
  "ratioMap (fst (observer_callback [(2, 1/4)] (nav_example_state, nav_example)))
     = [(lit ''a'', 1/4), (lit ''b'', 0)]"
  by (simp_all add: observer_callback_def record_entries_def nav_example_ids nav_example_state_def
      lit_eq_iff top_section_def setActive_def Let_def)

theorem C7_first_section_at_maximum_is_active_witness:
  "activeId (fst (observer_callback [(2, 1/4)] (nav_example_state, nav_example))) = Some (lit ''a'')
   \<and> activeId (fst (observer_callback [(2, 1/2), (3, 1/2)]
        (fst (observer_callback [(2, 1/4)] (nav_example_state, nav_example)),
         snd (observer_callback [(2, 1/4)] (nav_example_state, nav_example)))))
       = Some (lit ''a'')"
proof -
  let ?st = "fst (observer_callback [(2, 1/4)] (nav_example_state, nav_example))"
  let ?d = "snd (observer_callback [(2, 1/4)] (nav_example_state, nav_example))"
  have ids: "element_id ?d 2 = lit ''a''" "element_id ?d 3 = lit ''b''"
    by (simp_all add: observer_callback_ids nav_example_ids)
  have rm: "record_entries ?d [(2, 1/2), (3, 1/2)] (ratioMap ?st)
      = [] @ (lit ''a'', 1/2) # [(lit ''b'', 1/2)]"
    by (simp add: record_entries_def ids first_callback_a lit_eq_iff)
  show ?thesis
    using C7_first_section_at_maximum_is_active
      [of ?d "[(2, 1/2), (3, 1/2)]" ?st "[]" "lit ''a''" "1/2" "[(lit ''b'', 1/2)]"] rm
    by (simp add: first_callback_a)
qed


subsection \<open>Initialisation and missing elements\<close>

lemma guard_fail_noop: "\<not> guard m d \<Longrightarrow> init_module m d = d"
proof (cases m)
  case SmoothScroll
  then show "\<not> guard m d \<Longrightarrow> init_module m d = d" by simp
next
  case NavHighlight
  then show "\<not> guard m d \<Longrightarrow> init_module m d = d"
    by (auto simp: initNavHighlight_def Let_def)
next
  case MobileNav
  then show "\<not> guard m d \<Longrightarrow> init_module m d = d"
    by (auto simp: initMobileNav_def split: option.splits)
next
  case SkillFilter
  then show "\<not> guard m d \<Longrightarrow> init_module m d = d"
    by (auto simp: initSkillFilter_def Let_def)
next
  case SkillFilterDisplay
  then show "\<not> guard m d \<Longrightarrow> init_module m d = d"
    by (auto simp: initSkillFilter_display_def Let_def split: option.splits)
next
  case Experience
  then show "\<not> guard m d \<Longrightarrow> init_module m d = d"
    by (auto simp: initExperience_def Let_def)
next
  case ContactForm
  then show "\<not> guard m d \<Longrightarrow> init_module m d = d"
    by (auto simp: initContactForm_def Let_def split: option.splits)
next
  case CopyEmail
  then show "\<not> guard m d \<Longrightarrow> init_module m d = d"
    by (auto simp: initCopyEmail_def split: option.splits)
qed

lemma same_elements_refl: "same_elements d d"
  by (simp add: same_elements_def)

lemma same_elements_trans:
  "same_elements a b \<Longrightarrow> same_elements b c \<Longrightarrow> same_elements a c"
  by (simp add: same_elements_def)

lemma same_addEventListener: "same_elements d (addEventListener t ev h d)"
  by (simp add: same_elements_def addEventListener_def)

lemma same_syncAria: "same_elements d (syncAria s n d)"
  by (simp add: same_elements_def syncAria_def setAttribute_def)

lemma same_foldl:
  assumes "\<And>p x. same_elements p (f p x)"
  shows "same_elements d (foldl f d xs)"
proof (induction xs arbitrary: d)
  case Nil
  show ?case by (simp add: same_elements_refl)
next
  case (Cons x xs)
  have "same_elements d (f d x)" by (rule assms)
  moreover have "same_elements (f d x) (foldl f (f d x) xs)" by (rule Cons.IH)
  ultimately have "same_elements d (foldl f (f d x) xs)" by (rule same_elements_trans)
  then show ?case by simp
qed

lemma same_wire_field: "same_elements d (wire_field f d)"
  by (simp add: wire_field_def same_elements_def addEventListener_def split: option.splits)

lemma same_wire_summary: "same_elements d (wire_summary n d)"
  by (simp add: wire_summary_def same_elements_def addEventListener_def syncAria_def
      setAttribute_def split: option.splits)


lemma same_init_module: "same_elements d (init_module m d)"
proof (cases m)
  case SmoothScroll
  then show ?thesis by (simp add: initSmoothScroll_def same_addEventListener)
next
  case NavHighlight
  have "same_elements d (addEventListener Window ''resize'' NavResize
          (foldl (\<lambda>d1 s. addEventListener (Element s) ''intersection'' NavIntersection d1) d xs))"
    for xs
    by (rule same_elements_trans [OF same_foldl same_addEventListener])
      (rule same_addEventListener)
  with NavHighlight show ?thesis
    by (simp add: initNavHighlight_def Let_def same_elements_refl)
next
  case MobileNav
  have 1: "same_elements d
          (foldl (\<lambda>d1 link. addEventListener (Element link) ''click'' MobileLinkClick d1)
             (addEventListener (Element t) ''click'' MobileToggleClick d) xs)" for t xs
    by (rule same_elements_trans [OF same_addEventListener same_foldl])
      (rule same_addEventListener)
  have "same_elements d
          (addEventListener Document ''keydown'' MobileEscapeKey
            (addEventListener Document ''click'' MobileOutsideClick
              (foldl (\<lambda>d1 link. addEventListener (Element link) ''click'' MobileLinkClick d1)
                 (addEventListener (Element t) ''click'' MobileToggleClick d) xs)))" for t xs
    by (rule same_elements_trans [OF same_elements_trans [OF 1 same_addEventListener]
          same_addEventListener])
  with MobileNav show ?thesis
    by (simp add: initMobileNav_def same_elements_refl split: option.splits)
next
  case SkillFilter
  have 1: "same_elements d
          (foldl (\<lambda>d0 btn. addEventListener (Element btn) ''click'' (FilterClick btn) d0) d xs)"
    for xs
    by (rule same_foldl) (rule same_addEventListener)
  then have 2: "same_elements d (addEventListener (Element g) ''keydown'' FilterKeydown
          (foldl (\<lambda>d0 btn. addEventListener (Element btn) ''click'' (FilterClick btn) d0) d xs))"
    for g xs
    by (rule same_elements_trans) (rule same_addEventListener)
  from SkillFilter show ?thesis
    by (simp add: initSkillFilter_def Let_def same_elements_refl 1 2 split: option.splits)
next
  case SkillFilterDisplay
  have 1: "same_elements d
          (foldl (\<lambda>d0 btn. addEventListener (Element btn) ''click'' (FilterClick btn) d0) d xs)"
    for xs
    by (rule same_foldl) (rule same_addEventListener)
  from SkillFilterDisplay show ?thesis
    by (simp add: initSkillFilter_display_def Let_def same_elements_refl 1 split: option.splits)
next
  case Experience
  have "same_elements d
          (foldl (\<lambda>d1 details. wire_summary details d1)
             (foldl (\<lambda>d1 details.
                addEventListener (Element details) ''toggle'' (AccordionToggle details) d1) d xs) ys)"
    for xs ys
    by (rule same_elements_trans [OF same_foldl same_foldl])
      (rule same_addEventListener, rule same_wire_summary)
  with Experience show ?thesis
    by (simp add: initExperience_def Let_def same_elements_refl)
next
  case ContactForm
  have "same_elements d
          (addEventListener (Element f) ''submit'' FormSubmit
             (foldl (\<lambda>d1 fld. wire_field fld d1) d xs))" for f xs
    by (rule same_elements_trans [OF same_foldl same_addEventListener]) (rule same_wire_field)
  from this [of _ "[Name, Email, Message]"] ContactForm show ?thesis
    by (simp add: initContactForm_def Let_def same_elements_refl split: option.splits)
next
  case CopyEmail
  have "same_elements d
          (addEventListener (Element b) ''keydown'' CopyKeydown
            (addEventListener (Element b) ''click'' CopyClick d))" for b
    by (rule same_elements_trans [OF same_addEventListener same_addEventListener])
  with CopyEmail show ?thesis
    by (simp add: initCopyEmail_def same_elements_refl split: option.splits)
qed

lemma same_matches:
  "aria_free s \<Longrightarrow> same_elements d d1 \<Longrightarrow> matches (nodes d1 n) s = matches (nodes d n) s"
  by (induction s) (simp_all add: same_elements_def)

lemma same_qs:
  assumes "aria_free s" and "same_elements d d1"
  shows "qs s r d1 = qs s r d" and "qsa s r d1 = qsa s r d"
proof -
  have o: "doc_order d1 = doc_order d" using assms(2) by (simp add: same_elements_def)
  have "(in_scope d1 r k \<and> matches (nodes d1 k) s) = (in_scope d r k \<and> matches (nodes d k) s)" for k
    using same_matches [OF assms] assms(2)
    by (cases r) (simp_all add: in_scope_def same_elements_def)
  then show "qs s r d1 = qs s r d" and "qsa s r d1 = qsa s r d"
    by (simp_all add: qs_def qsa_def o)
qed

lemma same_guard: "same_elements d d1 \<Longrightarrow> guard m d1 = guard m d"
  by (cases m) (simp_all add: same_qs split: option.splits)


lemma same_init_sequence: "same_elements d (init_sequence ms d)"
  unfolding init_sequence_def by (rule same_foldl) (rule same_init_module)

lemma init_sequence_skip:
  assumes "\<not> guard m d" and "same_elements d p"
  shows "init_sequence ms p = init_sequence (filter (\<lambda>x. x \<noteq> m) ms) p"
  using assms(2)
proof (induction ms arbitrary: p)
  case Nil
  show ?case by simp
next
  case (Cons x xs)
  have next_same: "same_elements d (init_module x p)"
    using Cons.prems same_init_module by (rule same_elements_trans)
  show ?case
  proof (cases "x = m")
    case True
    have "\<not> guard m p" using assms(1) same_guard [OF Cons.prems] by simp
    then have "init_module m p = p" by (rule guard_fail_noop)
    with True Cons.IH [OF Cons.prems] show ?thesis
      by (simp add: init_sequence_def)
  next
    case False
    with Cons.IH [OF next_same] show ?thesis
      by (simp add: init_sequence_def)
  qed
qed

lemma wire_field_absent: "el (validators f) d = None \<Longrightarrow> wire_field f d = d"
  by (simp add: wire_field_def)

lemma contact_form_submit_wired:
  assumes "guard ContactForm d"
  shows "\<exists>fm. qs (ById (lit ''contact-form'')) None d = Some fm
          \<and> (Element fm, ''submit'', FormSubmit) \<in> set (listeners (init_module ContactForm d))"
proof -
  from assms obtain fm b s where "qs (ById (lit ''contact-form'')) None d = Some fm"
    "qs (ById (lit ''submit-btn'')) (Some fm) d = Some b"
    "qs (ById (lit ''form-success'')) None d = Some s"
    by auto
  then show ?thesis
    by (simp add: initContactForm_def Let_def addEventListener_def)
qed

text \<open>
  Claim C9 as stated fails. The page \<open>contact_no_fields\<close> lacks elements the contact form
  is expected to have (its three fields), yet the initialiser of the contact form does
  not return without effect: it registers the submit listener. And smooth scroll
  registers its listener on a page that has no element at all: it tests nothing before.
\<close>

theorem C9_contact_form_wires_without_fields:
  "\<not> spec_expected_contact_form contact_no_fields
   \<and> listeners contact_no_fields = []
   \<and> listeners (init_module ContactForm contact_no_fields) = [(Element 0, ''submit'', FormSubmit)]
   \<and> init_module ContactForm contact_no_fields \<noteq> contact_no_fields
   \<and> listeners (init_module SmoothScroll (page_of [] []))
       = [(Document, ''click'', SmoothScrollClick)]"
proof -
  have "\<not> (\<forall>f. el (validators f) contact_no_fields \<noteq> None
             \<and> errorEl (validators f) contact_no_fields \<noteq> None
             \<and> groupEl (validators f) contact_no_fields \<noteq> None)"
    using no_fields_absent [of Name] by blast
  then have 1: "\<not> spec_expected_contact_form contact_no_fields"
    by (simp add: spec_expected_contact_form_def)
  have q: "qs (ById (lit ''contact-form'')) None contact_no_fields = Some 0"
    "qs (ById (lit ''submit-btn'')) (Some 0) contact_no_fields = Some 2"
    "qs (ById (lit ''form-success'')) None contact_no_fields = Some 3"
    "listeners contact_no_fields = []"
    by (simp_all add: qs_def in_scope_def contact_no_fields_def page_of_def elem_def lit_eq_iff)
  have w: "wire_field f contact_no_fields = contact_no_fields" for f
    by (simp add: wire_field_absent no_fields_absent)
  have 2: "listeners (init_module ContactForm contact_no_fields) = [(Element 0, ''submit'', FormSubmit)]"
    by (simp add: initContactForm_def Let_def q w addEventListener_def)
  have 3: "init_module ContactForm contact_no_fields \<noteq> contact_no_fields"
    using 2 q(4) by auto
  have 4: "listeners (init_module SmoothScroll (page_of [] []))
       = [(Document, ''click'', SmoothScrollClick)]"
    by (simp add: initSmoothScroll_def addEventListener_def page_of_def)
  show ?thesis using 1 q(4) 2 3 4 by simp
qed

text \<open>
  Claim C9, amended. Every module whose initialiser has a guard (navigation highlight,
  mobile navigation, both skill filters, accordion, contact form, copy email) returns
  the page untouched, no listener registered, when its guard fails; and then the whole
  initialisation, of either script file, is what it would be with that module left out
  of the sequence: the other modules are wired as usual. Smooth scroll has no guard and
  always registers its one click listener on the document. Beyond the guard the contact
  form tests each field's input on its own: a missing input only skips that field's two
  listeners, and the submit listener is registered whenever the guard holds.
\<close>

theorem C9_failed_guard_is_noop:
  "(\<not> guard m d \<longrightarrow>
      init_module m d = d
      \<and> init_sequence ms d = init_sequence (filter (\<lambda>x. x \<noteq> m) ms) d
      \<and> init_all d = init_sequence (filter (\<lambda>x. x \<noteq> m)
           [SmoothScroll, NavHighlight, MobileNav, SkillFilter, Experience, ContactForm]) d
      \<and> init_all_second d = init_sequence (filter (\<lambda>x. x \<noteq> m)
           [SmoothScroll, NavHighlight, MobileNav, SkillFilterDisplay, Experience, CopyEmail]) d)
   \<and> listeners (init_module SmoothScroll d) = listeners d @ [(Document, ''click'', SmoothScrollClick)]
   \<and> (el (validators f) d = None \<longrightarrow> wire_field f d = d)
   \<and> (guard ContactForm d \<longrightarrow>
        (\<exists>fm. qs (ById (lit ''contact-form'')) None d = Some fm
           \<and> (Element fm, ''submit'', FormSubmit) \<in> set (listeners (init_module ContactForm d))))"
proof -
  have 1: "init_module m d = d" if "\<not> guard m d"
    using that by (rule guard_fail_noop)
  have 2: "init_sequence xs d = init_sequence (filter (\<lambda>x. x \<noteq> m) xs) d" if "\<not> guard m d" for xs
    using that same_elements_refl by (rule init_sequence_skip)
  have 3: "listeners (init_module SmoothScroll d)
      = listeners d @ [(Document, ''click'', SmoothScrollClick)]"
    by (simp add: initSmoothScroll_def addEventListener_def)
  show ?thesis
    using 1 2 3 wire_field_absent [of f d] contact_form_submit_wired [of d]
    unfolding init_all_def init_all_second_def by blast
qed


lemma skills_example_guards:
  "\<not> guard ContactForm skills_example" "\<not> guard NavHighlight skills_example"
  "\<not> guard MobileNav skills_example" "\<not> guard Experience skills_example"
  "guard SkillFilter skills_example"
  by (simp_all add: qs_def qsa_def in_scope_def skills_example_def page_of_def elem_def lit_eq_iff)

lemma skills_example_filter_wired:
  "listeners (init_module SkillFilter (init_module SmoothScroll skills_example))
     = [(Document, ''click'', SmoothScrollClick),
        (Element 1, ''click'', FilterClick 1), (Element 2, ''click'', FilterClick 2),
        (Element 3, ''click'', FilterClick 3), (Element 0, ''keydown'', FilterKeydown)]"
  by (simp add: initSkillFilter_def initSmoothScroll_def addEventListener_def Let_def qs_def
      qsa_def in_scope_def skills_example_def page_of_def elem_def lit_eq_iff)

theorem C9_failed_guard_is_noop_witness:
  "\<not> guard ContactForm skills_example
   \<and> init_module ContactForm skills_example = skills_example
   \<and> init_all skills_example
       = init_sequence [SmoothScroll, NavHighlight, MobileNav, SkillFilter, Experience] skills_example
   \<and> listeners (init_all skills_example)
       = [(Document, ''click'', SmoothScrollClick),
          (Element 1, ''click'', FilterClick 1), (Element 2, ''click'', FilterClick 2),
          (Element 3, ''click'', FilterClick 3), (Element 0, ''keydown'', FilterKeydown)]"
proof -
  note t = C9_failed_guard_is_noop [of ContactForm skills_example "[]" Name, THEN conjunct1,
      rule_format, OF skills_example_guards(1)]
  have a: "init_module ContactForm skills_example = skills_example"
    "init_all skills_example
       = init_sequence [SmoothScroll, NavHighlight, MobileNav, SkillFilter, Experience] skills_example"
    using t by simp_all
  have "init_sequence [SmoothScroll, NavHighlight, MobileNav, SkillFilter, Experience] skills_example
      = init_sequence (filter (\<lambda>x. x \<noteq> NavHighlight)
          [SmoothScroll, NavHighlight, MobileNav, SkillFilter, Experience]) skills_example"
    using skills_example_guards(2) same_elements_refl by (rule init_sequence_skip)
  also have "\<dots> = init_sequence (filter (\<lambda>x. x \<noteq> MobileNav)
          [SmoothScroll, MobileNav, SkillFilter, Experience]) skills_example"
    using init_sequence_skip [OF skills_example_guards(3) same_elements_refl,
        of "[SmoothScroll, MobileNav, SkillFilter, Experience]"] by simp
  also have "\<dots> = init_sequence (filter (\<lambda>x. x \<noteq> Experience)
          [SmoothScroll, SkillFilter, Experience]) skills_example"
    using init_sequence_skip [OF skills_example_guards(4) same_elements_refl,
        of "[SmoothScroll, SkillFilter, Experience]"] by simp
  also have "\<dots> = init_module SkillFilter (init_module SmoothScroll skills_example)"
    by (simp add: init_sequence_def)
  finally have "listeners (init_all skills_example)
       = [(Document, ''click'', SmoothScrollClick),
          (Element 1, ''click'', FilterClick 1), (Element 2, ''click'', FilterClick 2),
          (Element 3, ''click'', FilterClick 3), (Element 0, ''keydown'', FilterKeydown)]"
    by (simp only: a(2) skills_example_filter_wired)
  with a skills_example_guards(1) show ?thesis by simp
qed

end
